theory Spec2Isabelle
  imports Complex_Main "HOL-Library.Word"
begin

unbundle bit_operations_syntax

section \<open>Bytes, buffers and strings\<close>

text \<open>
  A Node \<open>Buffer\<close> is a sequence of bytes. \<open>Buffer.from([...])\<close> stores every number of
  the array modulo 256, which is what \<open>of_nat\<close> into \<open>8 word\<close> does.
\<close>

type_synonym byte = "8 word"
type_synonym buffer = "byte list"

text \<open>\<open>buf[i]\<close>: the byte at index \<open>i\<close>, or \<open>undefined\<close> (here \<open>None\<close>) out of range.\<close>

definition buf_index :: "buffer \<Rightarrow> nat \<Rightarrow> byte option" where
  "buf_index b i = (if i < length b then Some (b ! i) else None)"

text \<open>Truthiness of \<open>buf[i]\<close>: \<open>undefined\<close> and \<open>0\<close> are falsy, every other number is truthy.\<close>

definition truthy_byte :: "byte option \<Rightarrow> bool" where
  "truthy_byte v = (case v of None \<Rightarrow> False | Some x \<Rightarrow> x \<noteq> 0)"

text \<open>\<open>buf.slice(-2)\<close> and \<open>buf.slice(0, -2)\<close>.\<close>

definition slice_last2 :: "buffer \<Rightarrow> buffer" where
  "slice_last2 b = drop (length b - 2) b"

definition slice_drop_last2 :: "buffer \<Rightarrow> buffer" where
  "slice_drop_last2 b = take (length b - 2) b"

text \<open>\<open>buf.slice(start, end)\<close> for non-negative bounds: both are clamped to the length.\<close>

definition buf_slice :: "buffer \<Rightarrow> nat \<Rightarrow> nat \<Rightarrow> buffer" where
  "buf_slice b start end' = drop start (take end' b)"

subsection \<open>Hexadecimal strings\<close>

text \<open>
  \<open>Buffer.from(s, 'hex')\<close> is Node's hex decoder: it reads the string two characters at a
  time and stops, keeping what it has decoded, at the first pair that is not two hex digits;
  a single trailing character is ignored. It never throws.
\<close>

definition unhex :: "char \<Rightarrow> nat option" where
  "unhex c =
     (let n = (of_char c :: nat) in
      if 48 \<le> n \<and> n \<le> 57 then Some (n - 48)
      else if 65 \<le> n \<and> n \<le> 70 then Some (n - 55)
      else if 97 \<le> n \<and> n \<le> 102 then Some (n - 87)
      else None)"

fun hex_decode :: "string \<Rightarrow> buffer" where
  "hex_decode (a # b # rest) =
     (case unhex a of
        None \<Rightarrow> []
      | Some x \<Rightarrow> (case unhex b of
                     None \<Rightarrow> []
                   | Some y \<Rightarrow> of_nat (16 * x + y) # hex_decode rest))"
| "hex_decode _ = []"

text \<open>\<open>buf.toString('hex')\<close>: two lowercase hex digits per byte.\<close>

definition hex_digit :: "nat \<Rightarrow> char" where
  "hex_digit n = (if n < 10 then char_of (48 + n) else char_of (87 + n))"

fun hex_encode :: "buffer \<Rightarrow> string" where
  "hex_encode [] = []"
| "hex_encode (b # bs) = hex_digit (unat b div 16) # hex_digit (unat b mod 16) # hex_encode bs"

text \<open>\<open>s.toLowerCase()\<close> on the ASCII letters (key strings are hexadecimal digits).\<close>

definition lower_char :: "char \<Rightarrow> char" where
  "lower_char c =
     (let n = (of_char c :: nat) in if 65 \<le> n \<and> n \<le> 90 then char_of (n + 32) else c)"

definition toLowerCase :: "string \<Rightarrow> string" where
  "toLowerCase s = map lower_char s"

text \<open>A pair of characters that the hex decoder accepts.\<close>

definition hex_pair :: "char \<Rightarrow> char \<Rightarrow> bool" where
  "hex_pair a b = (unhex a \<noteq> None \<and> unhex b \<noteq> None)"

text \<open>A string at whose start the decoder stops: fewer than two characters, or a first
  pair that is not two hex digits.\<close>

fun stops_decoding :: "string \<Rightarrow> bool" where
  "stops_decoding (a # b # rest) = (\<not> hex_pair a b)"
| "stops_decoding _ = True"

section \<open>Errors\<close>

text \<open>
  \<open>BaseError(code, message, previousError)\<close> and its subclasses, which differ in their
  name only. Messages are left out. \<open>PlainError\<close> is JavaScript's \<open>Error\<close>,
  \<open>RangeError\<close> what \<open>readUInt16BE\<close> throws on a buffer that is too short, and
  \<open>ProviderError\<close> an error handed over by the PC/SC provider.
\<close>

datatype error_name =
    TransmitError | ControlError | ReadError | WriteError
  | LoadAuthenticationKeyError | AuthenticationError
  | ConnectError | DisconnectError | GetUIDError
  | PlainError | RangeError | ProviderError

datatype error = Error error_name (code: "string option") (previous: "error option")

fun name :: "error \<Rightarrow> error_name" where
  "name (Error n c p) = n"

definition FAILURE :: string where "FAILURE = ''failure''"
definition CARD_NOT_CONNECTED :: string where "CARD_NOT_CONNECTED = ''card_not_connected''"
definition OPERATION_FAILED :: string where "OPERATION_FAILED = ''operation_failed''"

section \<open>Cards and the AID configuration\<close>

definition TAG_ISO_14443_3 :: string where "TAG_ISO_14443_3 = ''TAG_ISO_14443_3''"
definition TAG_ISO_14443_4 :: string where "TAG_ISO_14443_4 = ''TAG_ISO_14443_4''"

definition KEY_TYPE_B :: nat where "KEY_TYPE_B = 0x61"

text \<open>The type \<open>Card\<close>: every field is optional.\<close>

record card =
  atr :: "buffer option"
  standard :: "string option"
  type :: "string option"
  uid :: "string option"
  data :: "buffer option"

definition empty_card :: card where
  "empty_card = \<lparr>atr = None, standard = None, type = None, uid = None, data = None\<rparr>"

text \<open>\<open>Reader.selectStandardByAtr\<close>: \<open>atr[5] && atr[5] === 0x4f\<close>.\<close>

definition selectStandardByAtr :: "buffer \<Rightarrow> string" where
  "selectStandardByAtr a =
     (if truthy_byte (buf_index a 5) \<and> buf_index a 5 = Some 0x4f
      then TAG_ISO_14443_3 else TAG_ISO_14443_4)"

text \<open>
  What an AID callable returns (\<open>any\<close>): a Buffer, or something that is not one.
\<close>

datatype aid_result = ResultBuffer buffer | ResultOther

text \<open>The field \<open>_aid\<close>: \<open>null\<close>, a callable, a Buffer or a string.\<close>

datatype aid_field =
    AidNull
  | AidFunction "card \<Rightarrow> aid_result"
  | AidBuffer buffer
  | AidString string

text \<open>
  The values the \<open>aid\<close> setter can be given at run time: a function, a Buffer, a string,
  or anything else (\<open>null\<close>, \<open>undefined\<close>, a number, an array, a plain object).
\<close>

datatype aid_arg =
    ArgFunction "card \<Rightarrow> aid_result"
  | ArgBuffer buffer
  | ArgString string
  | ArgOther

text \<open>
  The \<open>aid\<close> setter, on the field alone: the new value of \<open>_aid\<close>, or the \<open>Error\<close>
  it throws.
\<close>

definition set_aid :: "aid_arg \<Rightarrow> error + aid_field" where
  "set_aid v =
     (case v of
        ArgFunction f \<Rightarrow> Inr (AidFunction f)
      | ArgBuffer b \<Rightarrow> Inr (AidBuffer b)
      | ArgOther \<Rightarrow> Inl (Error PlainError None None)
      | ArgString s \<Rightarrow> Inr (AidBuffer (hex_decode s)))"

section \<open>Numbers\<close>

text \<open>
  A JavaScript number that is used as a block number: a finite value, or \<open>NaN\<close> or an
  infinity (\<open>NotFinite\<close>), which a division by zero produces. Finite values are exact
  rationals here, where the code computes in double precision. The two agree on the bytes
  of a packet as long as no rounding reaches the next integer: for a block number \<open>b\<close>
  that is a natural number, \<open>b + a / blockSize\<close> with \<open>a < length\<close> has the same integer
  part in both when \<open>blockSize * (b + length)\<close> is below \<open>2 ^ 51\<close> (the two roundings
  move the value by less than \<open>1 / blockSize\<close>, the least distance of a quotient that is
  no integer from an integer). The theorems on split reads keep \<open>b + length\<close> and
  \<open>blockSize\<close> within \<open>2 ^ 16\<close>, the range of the two block bytes of the packet.
\<close>

datatype number = Finite rat | NotFinite

definition js_plus :: "number \<Rightarrow> number \<Rightarrow> number" where
  "js_plus x y = (case (x, y) of (Finite a, Finite b) \<Rightarrow> Finite (a + b) | _ \<Rightarrow> NotFinite)"

text \<open>\<open>a / b\<close> on two non-negative integers: \<open>0 / 0\<close> is \<open>NaN\<close>, \<open>a / 0\<close> is \<open>Infinity\<close>.\<close>

definition js_divide :: "nat \<Rightarrow> nat \<Rightarrow> number" where
  "js_divide a b = (if b = 0 then NotFinite else Finite (of_nat a / of_nat b))"

text \<open>The integer part of a rational, rounding towards zero (the first step of \<open>ToInt32\<close>).\<close>

definition trunc_zero :: "rat \<Rightarrow> int" where
  "trunc_zero q = (if 0 \<le> q then \<lfloor>q\<rfloor> else \<lceil>q\<rceil>)"

text \<open>
  \<open>x & 0xFF\<close> and \<open>(x >> 8) & 0xFF\<close>: the bit operators convert with \<open>ToInt32\<close>, which
  maps \<open>NaN\<close> and the infinities to 0 and a finite value to its integer part modulo
  \<open>2 ^ 32\<close>; bits 0 to 15 of that are those of the integer part itself.
\<close>

definition low_byte :: "number \<Rightarrow> byte" where
  "low_byte x = (case x of Finite q \<Rightarrow> of_int (trunc_zero q) | NotFinite \<Rightarrow> 0)"

definition high_byte :: "number \<Rightarrow> byte" where
  "high_byte x = (case x of Finite q \<Rightarrow> of_int (trunc_zero q div 256) | NotFinite \<Rightarrow> 0)"

text \<open>\<open>Math.ceil(a / b)\<close> on two non-negative integers, for \<open>b > 0\<close>.\<close>

definition ceil_div :: "nat \<Rightarrow> nat \<Rightarrow> nat" where
  "ceil_div a b = nat \<lceil>(of_nat a :: rat) / of_nat b\<rceil>"

text \<open>\<open>buf.readUInt16BE(0)\<close>: throws a \<open>RangeError\<close> on fewer than two bytes.\<close>

definition readUInt16BE :: "buffer \<Rightarrow> error + nat" where
  "readUInt16BE b =
     (if length b < 2 then Inl (Error RangeError None None)
      else Inr (256 * unat (b ! 0) + unat (b ! 1)))"

text \<open>
  \<open>Buffer.concat(list, totalLength)\<close>: the empty buffer for an empty list; otherwise a
  buffer of exactly \<open>totalLength\<close> bytes, holding the buffers one after the other, cut at
  \<open>totalLength\<close> and filled with zeros behind them.
\<close>

definition buffer_concat :: "buffer list \<Rightarrow> nat \<Rightarrow> buffer" where
  "buffer_concat list totalLength =
     (if list = [] then []
      else take totalLength (concat list) @ replicate (totalLength - length (concat list)) 0)"

section \<open>The reader\<close>

record connection =
  share_type :: nat
  protocol :: nat

text \<open>
  The fields of \<open>Reader\<close>. \<open>keyStorage\<close> has the two slots 0 and 1 (\<open>None\<close> is
  \<open>null\<close>); \<open>pendingLoadAuthenticationKey\<close> maps a key string to the promise of the
  load in progress, a promise being named by its number.
\<close>

record reader =
  connection :: "connection option"
  card' :: "card option"
  autoProcessing :: bool
  aid :: aid_field
  keyStorage :: "nat \<Rightarrow> buffer option"
  pendingLoadAuthenticationKey :: "string \<Rightarrow> nat option"

definition new_reader :: reader where
  "new_reader = \<lparr>connection = None, card' = None, autoProcessing = True, aid = AidNull,
     keyStorage = (\<lambda>k. None), pendingLoadAuthenticationKey = (\<lambda>k. None)\<rparr>"

text \<open>
  The provider's \<open>transmit(data, responseMaxLength, protocol, cb)\<close>: what the callback is
  given, an error or the response.
\<close>

type_synonym provider_transmit = "buffer \<Rightarrow> nat \<Rightarrow> nat \<Rightarrow> error + buffer"

text \<open>
  \<open>Reader.transmit\<close>: the outcome of the promise (a synchronous throw counts as a
  rejection: every caller here awaits it inside \<open>try\<close>) and the packets handed to the
  provider.
\<close>

definition transmit ::
  "provider_transmit \<Rightarrow> reader \<Rightarrow> buffer \<Rightarrow> nat \<Rightarrow> (error + buffer) \<times> buffer list" where
  "transmit prov r dat responseMaxLength =
     (if card' r = None then (Inl (Error TransmitError (Some CARD_NOT_CONNECTED) None), [])
      else case connection r of
        None \<Rightarrow> (Inl (Error TransmitError (Some CARD_NOT_CONNECTED) None), [])
      | Some c \<Rightarrow>
          (case prov dat responseMaxLength (protocol c) of
             Inl err \<Rightarrow> (Inl (Error TransmitError (Some FAILURE) (Some err)), [dat])
           | Inr response \<Rightarrow> (Inr response, [dat])))"

section \<open>Block reads and writes\<close>

text \<open>
  \<open>Promise.all(commands)\<close> over the results of the commands, each with the packets it
  sent: all packets are sent, since every command is started before any is awaited. The
  promise rejects with the first rejection; the provider is taken to answer in the order
  of the requests, so that is the first one in the list.
\<close>

fun first_error :: "(error + 'a) list \<Rightarrow> error option" where
  "first_error [] = None"
| "first_error (Inl e # rs) = Some e"
| "first_error (Inr v # rs) = first_error rs"

definition promise_all :: "(error + 'a) list \<Rightarrow> error + 'a list" where
  "promise_all rs = (case first_error rs of Some e \<Rightarrow> Inl e | None \<Rightarrow> Inr (map projr rs))"

text \<open>The single Read Binary APDU of \<open>read\<close> (its part after the split).\<close>

definition read_apdu ::
  "provider_transmit \<Rightarrow> reader \<Rightarrow> number \<Rightarrow> nat \<Rightarrow> byte \<Rightarrow> (error + buffer) \<times> buffer list" where
  "read_apdu prov r blockNumber len readClass =
     (let packet = [readClass, 0xb0, high_byte blockNumber, low_byte blockNumber, of_nat len]
      in case transmit prov r packet (len + 2) of
           (Inl err, sent) \<Rightarrow> (Inl (Error ReadError None (Some err)), sent)
         | (Inr response, sent) \<Rightarrow>
             if length response < 2 then (Inl (Error ReadError (Some OPERATION_FAILED) None), sent)
             else if readUInt16BE (slice_last2 response) \<noteq> Inr 0x9000
               then (Inl (Error ReadError (Some OPERATION_FAILED) None), sent)
             else (Inr (slice_drop_last2 response), sent))"

text \<open>The arguments of sub-read \<open>i\<close>: its block and its size.\<close>

definition read_block :: "number \<Rightarrow> nat \<Rightarrow> nat \<Rightarrow> nat \<Rightarrow> number" where
  "read_block blockNumber blockSize packetSize i =
     js_plus blockNumber (js_divide (i * packetSize) blockSize)"

definition read_size :: "nat \<Rightarrow> nat \<Rightarrow> nat \<Rightarrow> nat" where
  "read_size len packetSize i =
     (if (i + 1) * packetSize < len then packetSize else len - i * packetSize)"

text \<open>
  \<open>Reader.read\<close>. The result is \<open>None\<close> when the call does not return: with
  \<open>packetSize = 0\<close> and \<open>length > 0\<close>, \<open>Math.ceil(length / packetSize)\<close> is
  \<open>Infinity\<close> and the loop that starts the sub-reads never ends.
\<close>

function read ::
  "provider_transmit \<Rightarrow> reader \<Rightarrow> number \<Rightarrow> nat \<Rightarrow> nat \<Rightarrow> nat \<Rightarrow> byte
   \<Rightarrow> (error + buffer) option \<times> buffer list" where
  "read prov r blockNumber len blockSize packetSize readClass =
     (if card' r = None then (Some (Inl (Error ReadError (Some CARD_NOT_CONNECTED) None)), [])
      else if len > packetSize then
        (if packetSize = 0 then (None, [])
         else
           let p = ceil_div len packetSize;
               commands = map (\<lambda>i. read prov r (read_block blockNumber blockSize packetSize i)
                                   (read_size len packetSize i) blockSize packetSize readClass)
                            [0..<p];
               sent = concat (map snd commands)
           in if None \<in> set (map fst commands) then (None, sent)
              else case promise_all (map (the \<circ> fst) commands) of
                     Inl err \<Rightarrow> (Some (Inl err), sent)
                   | Inr values \<Rightarrow> (Some (Inr (buffer_concat values len)), sent))
      else
        (case read_apdu prov r blockNumber len readClass of
           (res, sent) \<Rightarrow> (Some res, sent)))"
  by pat_completeness auto
termination
proof (relation "measure (\<lambda>(prov, r, blockNumber, len, blockSize, packetSize, readClass).
                            if len > packetSize then 1 else 0)")
  show "wf (measure (\<lambda>(prov :: provider_transmit, r :: reader, blockNumber :: number,
                        len :: nat, blockSize :: nat, packetSize :: nat, readClass :: byte).
                            if len > packetSize then 1 else (0::nat)))"
    by simp
next
  fix prov :: provider_transmit and r :: reader and blockNumber :: number
    and len blockSize packetSize :: nat and readClass :: byte and p i :: nat
  assume "packetSize < len"
  have "read_size len packetSize i \<le> packetSize"
    by (auto simp: read_size_def)
  with \<open>packetSize < len\<close>
  show "((prov, r, read_block blockNumber blockSize packetSize i, read_size len packetSize i,
          blockSize, packetSize, readClass),
         prov, r, blockNumber, len, blockSize, packetSize, readClass)
        \<in> measure (\<lambda>(prov, r, blockNumber, len, blockSize, packetSize, readClass).
                      if len > packetSize then 1 else 0)"
    by simp
qed

text \<open>The single Update Binary APDU of \<open>write\<close> (its part after the split).\<close>

definition write_apdu ::
  "provider_transmit \<Rightarrow> reader \<Rightarrow> nat \<Rightarrow> buffer \<Rightarrow> nat \<Rightarrow> (error + bool) \<times> buffer list" where
  "write_apdu prov r blockNumber dat blockSize =
     (let packetHeader = [0xff, 0xd6, 0x00, of_nat blockNumber, of_nat blockSize];
          packet = packetHeader @ dat
      in case transmit prov r packet 2 of
           (Inl err, sent) \<Rightarrow> (Inl (Error WriteError None (Some err)), sent)
         | (Inr response, sent) \<Rightarrow>
             if length response < 2 then (Inl (Error WriteError (Some OPERATION_FAILED) None), sent)
             else if readUInt16BE (slice_last2 response) \<noteq> Inr 0x9000
               then (Inl (Error WriteError (Some OPERATION_FAILED) None), sent)
             else (Inr True, sent))"

text \<open>
  \<open>Reader.write\<close> (\<open>write\<close> is a keyword of Isabelle). \<open>data.length % blockSize !== 0\<close> also holds for \<open>blockSize = 0\<close>,
  where the remainder is \<open>NaN\<close>.
\<close>

function write' ::
  "provider_transmit \<Rightarrow> reader \<Rightarrow> nat \<Rightarrow> buffer \<Rightarrow> nat \<Rightarrow> (error + bool) \<times> buffer list" where
  "write' prov r blockNumber dat blockSize =
     (if card' r = None then (Inl (Error WriteError (Some CARD_NOT_CONNECTED) None), [])
      else if length dat < blockSize \<or> blockSize = 0 \<or> length dat mod blockSize \<noteq> 0
        then (Inl (Error WriteError (Some ''invalid_data_length'') None), [])
      else if length dat > blockSize then
        (let p = length dat div blockSize;
             commands = map (\<lambda>i. write' prov r (blockNumber + i)
                                 (buf_slice dat (i * blockSize) ((i + 1) * blockSize)) blockSize)
                          [0..<p];
             sent = concat (map snd commands)
         in case promise_all (map fst commands) of
              Inl err \<Rightarrow> (Inl err, sent)
            | Inr values \<Rightarrow> (Inr True, sent))
      else write_apdu prov r blockNumber dat blockSize)"
  by pat_completeness auto
termination
proof (relation "measure (\<lambda>(prov, r, blockNumber, dat, blockSize).
                            if length dat > blockSize then 1 else 0)")
  show "wf (measure (\<lambda>(prov :: provider_transmit, r :: reader, blockNumber :: nat,
                        dat :: buffer, blockSize :: nat).
                            if length dat > blockSize then 1 else (0::nat)))"
    by simp
next
  fix prov :: provider_transmit and r :: reader and blockNumber :: nat
    and dat :: buffer and blockSize p i :: nat
  assume "blockSize < length dat"
  moreover have "length (buf_slice dat (i * blockSize) ((i + 1) * blockSize)) \<le> blockSize"
    by (simp add: buf_slice_def)
  ultimately
  show "((prov, r, blockNumber + i, buf_slice dat (i * blockSize) ((i + 1) * blockSize), blockSize),
         prov, r, blockNumber, dat, blockSize)
        \<in> measure (\<lambda>(prov, r, blockNumber, dat, blockSize).
                      if length dat > blockSize then 1 else 0)"
    by simp
qed

section \<open>Events\<close>

text \<open>
  \<open>emit(type, ...args)\<close> of the \<open>EventEmitter\<close>. The type is a string, the name of
  the channel whose listeners are called; when the code passes an object instead, as in
  \<open>this.emit(err)\<close>, the channel is named by that object, not by a string a listener of
  \<open>'error'\<close> registered with (\<open>EventObject\<close>). The arguments are cards or errors.
\<close>

datatype event_type = EventName string | EventObject error

datatype payload = PCard card | PError error

type_synonym emitted = "event_type \<times> payload list"

text \<open>What the listeners registered with \<open>on(name, ...)\<close> are called with.\<close>

definition observed :: "string \<Rightarrow> emitted list \<Rightarrow> payload list list" where
  "observed n evs = map snd (filter (\<lambda>e. fst e = EventName n) evs)"

section \<open>The tag dispatcher\<close>

text \<open>
  The handlers return the reader, the events emitted, the packets sent and the value
  returned (\<open>Some False\<close> for \<open>false\<close>, \<open>None\<close> for \<open>undefined\<close>). The card and the
  connection do not change while a handler waits for the provider.
\<close>

type_synonym handled = "reader \<times> emitted list \<times> buffer list \<times> bool option"

definition emit_error :: "error \<Rightarrow> emitted" where
  "emit_error err = (EventName ''error'', [PError err])"

definition handle_Iso_14443_3_Tag :: "provider_transmit \<Rightarrow> reader \<Rightarrow> handled" where
  "handle_Iso_14443_3_Tag prov r =
     (case card' r of
        None \<Rightarrow> (r, [], [], Some False)
      | Some cd \<Rightarrow>
          if connection r = None then (r, [], [], Some False)
          else
            let packet = [0xff, 0xca, 0x00, 0x00, 0x00]
            in case transmit prov r packet 12 of
                 (Inl err, sent) \<Rightarrow>
                   (r, [emit_error (Error GetUIDError None (Some err))], sent, None)
               | (Inr response, sent) \<Rightarrow>
                   if length response < 2
                     then (r, [emit_error (Error GetUIDError (Some ''invalid_response'') None)],
                           sent, None)
                   else if readUInt16BE (slice_last2 response) \<noteq> Inr 0x9000
                     then (r, [emit_error (Error GetUIDError (Some OPERATION_FAILED) None)],
                           sent, None)
                   else
                     let uid' = hex_encode (slice_drop_last2 response);
                         cd' = cd\<lparr>uid := Some uid'\<rparr>
                     in (r\<lparr>card' := Some cd'\<rparr>, [(EventName ''card'', [PCard cd'])], sent, None))"

text \<open>
  \<open>!this.aid\<close> holds for \<open>null\<close> and for the empty string; a Buffer, even an empty one,
  and a function are truthy.
\<close>

definition aid_falsy :: "aid_field \<Rightarrow> bool" where
  "aid_falsy a = (case a of AidNull \<Rightarrow> True | AidString s \<Rightarrow> s = [] | _ \<Rightarrow> False)"

definition handle_Iso_14443_4_Tag :: "provider_transmit \<Rightarrow> reader \<Rightarrow> handled" where
  "handle_Iso_14443_4_Tag prov r =
     (case card' r of
        None \<Rightarrow> (r, [], [], Some False)
      | Some cd \<Rightarrow>
          if connection r = None then (r, [], [], Some False)
          else if aid_falsy (aid r) then (r, [emit_error (Error PlainError None None)], [], None)
          else
            (case (case aid r of
                     AidFunction f \<Rightarrow> f cd
                   | AidBuffer b \<Rightarrow> ResultBuffer b
                   | _ \<Rightarrow> ResultOther) of
               ResultOther \<Rightarrow> (r, [emit_error (Error PlainError None None)], [], None)
             | ResultBuffer a \<Rightarrow>
                 let packet = [0x00, 0xa4, 0x04, 0x00, of_nat (length a)] @ a @ [0x00]
                 in case transmit prov r packet 40 of
                      (Inl err, sent) \<Rightarrow>
                        (r, [emit_error (Error GetUIDError None (Some err))], sent, None)
                    | (Inr response, sent) \<Rightarrow>
                        if length response = 2 \<and> readUInt16BE response = Inr 0x6a82
                          then (r, [emit_error (Error PlainError None None)], sent, None)
                        else if length response < 2
                          then (r, [emit_error (Error PlainError None None)], sent, None)
                        else if readUInt16BE (slice_last2 response) \<noteq> Inr 0x9000
                          then (r, [emit_error (Error PlainError None None)], sent, None)
                        else
                          (r, [(EventName ''card'',
                                [PCard (cd\<lparr>data := Some (slice_drop_last2 response)\<rparr>)])],
                           sent, None)))"

text \<open>\<open>Reader.handleTag\<close>: the \<open>switch\<close> on \<open>this.card.standard\<close>.\<close>

definition handleTag :: "provider_transmit \<Rightarrow> reader \<Rightarrow> handled" where
  "handleTag prov r =
     (case card' r of
        None \<Rightarrow> (r, [], [], Some False)
      | Some cd \<Rightarrow>
          if standard cd = Some TAG_ISO_14443_3 then handle_Iso_14443_3_Tag prov r
          else if standard cd = Some TAG_ISO_14443_4 then handle_Iso_14443_4_Tag prov r
          else handle_Iso_14443_3_Tag prov r)"

section \<open>The status handler\<close>

text \<open>
  The PC/SC provider of a reader: its constants, the state it last reported
  (\<open>this.reader.state\<close>, which it updates after the status event), and what its
  \<open>connect\<close>, \<open>disconnect\<close> and \<open>transmit\<close> hand to their callbacks. State words are
  32-bit, as the operands of \<open>^\<close> and \<open>&\<close> are.
\<close>

record provider =
  SCARD_STATE_EMPTY :: "32 word"
  SCARD_STATE_PRESENT :: "32 word"
  SCARD_SHARE_DIRECT :: nat
  SCARD_SHARE_SHARED :: nat
  reader_state :: "32 word"
  provider_connect :: "nat \<Rightarrow> nat option \<Rightarrow> error + nat option"
  provider_disconnect :: "error option"
  provider_transmit :: provider_transmit

definition CONNECT_MODE_DIRECT :: string where "CONNECT_MODE_DIRECT = ''CONNECT_MODE_DIRECT''"
definition CONNECT_MODE_CARD :: string where "CONNECT_MODE_CARD = ''CONNECT_MODE_CARD''"

text \<open>
  \<open>modes[mode]\<close>: \<open>undefined\<close> for a mode that is neither of the two. This is for the
  modes that are not names of properties of \<open>Object.prototype\<close>, for which the object
  literal gives an inherited function; the status handler passes no mode and so takes
  \<open>CONNECT_MODE_CARD\<close>.
\<close>

definition modes :: "provider \<Rightarrow> string \<Rightarrow> nat option" where
  "modes p mode' =
     (if mode' = CONNECT_MODE_DIRECT then Some (SCARD_SHARE_DIRECT p)
      else if mode' = CONNECT_MODE_CARD then Some (SCARD_SHARE_SHARED p)
      else None)"

text \<open>\<open>Reader.connect\<close>; \<open>connectionProtocol || 0\<close> is 0 for \<open>undefined\<close>.\<close>

definition connect :: "provider \<Rightarrow> reader \<Rightarrow> string \<Rightarrow> nat option \<Rightarrow> (error + connection) \<times> reader" where
  "connect p r mode' protocol' =
     (case modes p mode' of
        None \<Rightarrow> (Inl (Error ConnectError (Some ''invalid_mode'') None), r)
      | Some m \<Rightarrow>
          if m = 0 then (Inl (Error ConnectError (Some ''invalid_mode'') None), r)
          else case provider_connect p m protocol' of
                 Inl err \<Rightarrow> (Inl (Error ConnectError (Some FAILURE) (Some err)), r)
               | Inr connectionProtocol \<Rightarrow>
                   let c = \<lparr>share_type = m,
                            protocol = (case connectionProtocol of None \<Rightarrow> 0 | Some n \<Rightarrow> n)\<rparr>
                   in (Inr c, r\<lparr>connection := Some c\<rparr>))"

text \<open>\<open>Reader.disconnect\<close>.\<close>

definition disconnect :: "provider \<Rightarrow> reader \<Rightarrow> (error + bool) \<times> reader" where
  "disconnect p r =
     (if connection r = None then (Inl (Error DisconnectError (Some ''not_connected'') None), r)
      else case provider_disconnect p of
             Some err \<Rightarrow> (Inl (Error DisconnectError (Some FAILURE) (Some err)), r)
           | None \<Rightarrow> (Inr True, r\<lparr>connection := None\<rparr>))"

text \<open>
  The listener of the provider's \<open>status\<close> event, given \<open>status.state\<close> and
  \<open>status.atr\<close>. Both \<open>catch\<close> blocks call \<open>this.emit(err)\<close>: the error is the first
  argument, the event type, and there is no payload. \<open>handleTag()\<close> is not awaited; its
  events are those that follow once the provider has answered.
\<close>

definition status_handler ::
  "provider \<Rightarrow> reader \<Rightarrow> 32 word \<Rightarrow> buffer option \<Rightarrow> reader \<times> emitted list \<times> buffer list" where
  "status_handler p r state' atr' =
     (let changes = reader_state p XOR state' in
      if changes \<noteq> 0 then
        if changes AND SCARD_STATE_EMPTY p \<noteq> 0 \<and> state' AND SCARD_STATE_EMPTY p \<noteq> 0 then
          let off = (case card' r of None \<Rightarrow> [] | Some cd \<Rightarrow> [(EventName ''card.off'', [PCard cd])]);
              r1 = r\<lparr>card' := None\<rparr>
          in if connection r1 = None then (r1, off, [])
             else case disconnect p r1 of
                    (Inl err, r2) \<Rightarrow> (r2, off @ [(EventObject err, [])], [])
                  | (Inr ok, r2) \<Rightarrow> (r2, off, [])
        else if changes AND SCARD_STATE_PRESENT p \<noteq> 0 \<and> state' AND SCARD_STATE_PRESENT p \<noteq> 0 then
          let cd = (case atr' of
                      None \<Rightarrow> empty_card
                    | Some a \<Rightarrow> empty_card\<lparr>atr := Some a,
                                  standard := Some (selectStandardByAtr a),
                                  type := Some (selectStandardByAtr a)\<rparr>);
              r1 = r\<lparr>card' := Some cd\<rparr>
          in case connect p r1 CONNECT_MODE_CARD None of
               (Inl err, r2) \<Rightarrow> (r2, [(EventObject err, [])], [])
             | (Inr c, r2) \<Rightarrow>
                 if \<not> autoProcessing r2 then (r2, [(EventName ''card'', [PCard cd])], [])
                 else case handleTag (provider_transmit p) r2 of
                        (r3, evs, sent, ret) \<Rightarrow> (r3, evs, sent)
        else (r, [], [])
      else (r, [], []))"

section \<open>Key slots and authentication\<close>

text \<open>
  \<open>Reader.findKeyNumber\<close>: \<open>Object.keys(this.keyStorage)\<close> is \<open>["0", "1"]\<close>; the
  argument \<open>None\<close> is \<open>null\<close> and asks for an empty slot.
\<close>

definition findKeyNumber :: "reader \<Rightarrow> string option \<Rightarrow> nat option" where
  "findKeyNumber r k =
     List.find (\<lambda>n. case k of
                       None \<Rightarrow> keyStorage r n = None
                     | Some s \<Rightarrow> (case keyStorage r n of
                                    None \<Rightarrow> False
                                  | Some keyVal \<Rightarrow> toLowerCase (hex_encode keyVal) = toLowerCase s))
       [0, 1]"

text \<open>
  The key argument of \<open>loadAuthenticationKey\<close>: a string, a Buffer, or a value that is
  neither (a key given as an array of numbers is not modelled).
\<close>

datatype key_arg = KeyString string | KeyBuffer buffer | KeyOther

text \<open>
  \<open>loadAuthenticationKey\<close> up to its \<open>await\<close>: the checks, and the key bytes and the
  packet it hands to \<open>transmit\<close>.
\<close>

definition loadAuthenticationKey_packet :: "nat \<Rightarrow> key_arg \<Rightarrow> error + buffer \<times> buffer" where
  "loadAuthenticationKey_packet keyNumber k =
     (if \<not> (keyNumber = 0 \<or> keyNumber = 1)
        then Inl (Error LoadAuthenticationKeyError (Some ''invalid_key_number'') None)
      else case (case k of
                   KeyBuffer b \<Rightarrow> Some b
                 | KeyString s \<Rightarrow> Some (hex_decode s)
                 | KeyOther \<Rightarrow> None) of
             None \<Rightarrow> Inl (Error LoadAuthenticationKeyError (Some ''invalid_key'') None)
           | Some kb \<Rightarrow>
               if length kb \<noteq> 6
                 then Inl (Error LoadAuthenticationKeyError (Some ''invalid_key'') None)
               else Inr (kb, [0xff, 0x82, 0x00, of_nat keyNumber, of_nat (length kb)] @ kb))"

text \<open>
  \<open>loadAuthenticationKey\<close> after its \<open>await\<close>, on the response: the status word is read
  at offset 0 (a \<open>RangeError\<close> if there are fewer than two bytes), and on \<open>0x9000\<close> the
  key is stored in the slot.
\<close>

definition loadAuthenticationKey_response ::
  "reader \<Rightarrow> nat \<Rightarrow> buffer \<Rightarrow> buffer \<Rightarrow> (error + nat) \<times> reader" where
  "loadAuthenticationKey_response r keyNumber kb response =
     (case readUInt16BE response of
        Inl err \<Rightarrow> (Inl err, r)
      | Inr statusCode \<Rightarrow>
          if statusCode \<noteq> 0x9000
            then (Inl (Error LoadAuthenticationKeyError (Some OPERATION_FAILED) None), r)
          else (Inr keyNumber, r\<lparr>keyStorage := (keyStorage r)(keyNumber := Some kb)\<rparr>))"

text \<open>
  \<open>Reader.loadAuthenticationKey\<close>, called on its own and run to its end: the result, the
  reader and the packets sent.
\<close>

definition loadAuthenticationKey ::
  "provider_transmit \<Rightarrow> reader \<Rightarrow> nat \<Rightarrow> key_arg \<Rightarrow> (error + nat) \<times> reader \<times> buffer list" where
  "loadAuthenticationKey prov r keyNumber k =
     (case loadAuthenticationKey_packet keyNumber k of
        Inl err \<Rightarrow> (Inl err, r, [])
      | Inr (kb, packet) \<Rightarrow>
          (case transmit prov r packet 2 of
             (Inl err, sent) \<Rightarrow> (Inl (Error LoadAuthenticationKeyError None (Some err)), r, sent)
           | (Inr response, sent) \<Rightarrow>
               (case loadAuthenticationKey_response r keyNumber kb response of
                  (res, r') \<Rightarrow> (res, r', sent))))"

text \<open>
  The slot \<open>authenticate\<close> loads a missing key into: the first key of \<open>keyStorage\<close>,
  unless that slot is taken and \<open>findKeyNumber(null)\<close> is truthy (a slot other than 0).
\<close>

definition authenticate_slot :: "reader \<Rightarrow> nat" where
  "authenticate_slot r =
     (let keyNumber = hd [0, 1] in
      if keyStorage r keyNumber \<noteq> None then
        (case findKeyNumber r None of
           None \<Rightarrow> keyNumber
         | Some freeNumber \<Rightarrow> if freeNumber \<noteq> 0 then freeNumber else keyNumber)
      else keyNumber)"

text \<open>The Authenticate packet, in its current and its obsolete form.\<close>

definition authenticate_packet :: "nat \<Rightarrow> nat \<Rightarrow> nat \<Rightarrow> bool \<Rightarrow> buffer" where
  "authenticate_packet blockNumber keyType keyNumber obsolete =
     (if \<not> obsolete
        then [0xff, 0x86, 0x00, 0x00, 0x05, 0x01, 0x00,
              of_nat blockNumber, of_nat keyType, of_nat keyNumber]
      else [0xff, 0x88, 0x00, of_nat blockNumber, of_nat keyType, of_nat keyNumber])"

text \<open>\<open>authenticate\<close> after the \<open>await\<close> of its own transmit, on what the provider answered.\<close>

definition authenticate_response :: "error + buffer \<Rightarrow> error + bool" where
  "authenticate_response answer =
     (case answer of
        Inl err \<Rightarrow>
          Inl (Error AuthenticationError None (Some (Error TransmitError (Some FAILURE) (Some err))))
      | Inr response \<Rightarrow>
          (case readUInt16BE response of
             Inl err \<Rightarrow> Inl err
           | Inr statusCode \<Rightarrow>
               if statusCode \<noteq> 0x9000
                 then Inl (Error AuthenticationError (Some OPERATION_FAILED) None)
               else Inr True))"

subsection \<open>Concurrent calls\<close>

text \<open>
  \<open>authenticate\<close> is asynchronous: it runs up to an \<open>await\<close>, and goes on when the
  awaited promise has settled, while other calls run in between. The model is a state
  machine over the reader, the promises of \<open>loadAuthenticationKey\<close> (named by their
  position in a list), the calls of \<open>authenticate\<close> (named by a number the caller
  chooses) and what has been sent to the provider. A step is one piece of code that runs
  without interruption.

  The promise of a load is pending, with its slot and key bytes, while the provider has not
  answered its packet; it is settled at once when \<open>loadAuthenticationKey\<close> throws before
  the provider is called (a bad key, no card, no connection).
\<close>

datatype load_promise = LoadPending nat buffer | LoadSettled "error + nat"

text \<open>
  \<open>pendingLoadAuthenticationKey\<close> is a plain object: \<open>this.pendingLoadAuthenticationKey[key]\<close>
  is the entry stored under the key if there is one (the field of the reader, which holds
  the object's own properties), and otherwise, for a key that is the name of a property
  of \<open>Object.prototype\<close>, the value inherited under that name: a function, or the
  prototype itself for \<open>__proto__\<close>. Such a value is truthy and is no promise.
\<close>

definition inherited_name :: "string \<Rightarrow> bool" where
  "inherited_name k = (k \<in> set [''constructor'', ''__defineGetter__'', ''__defineSetter__'',
     ''hasOwnProperty'', ''__lookupGetter__'', ''__lookupSetter__'', ''isPrototypeOf'',
     ''propertyIsEnumerable'', ''toString'', ''valueOf'', ''__proto__'', ''toLocaleString''])"

text \<open>
  A call waits for the promise of a load (\<open>AwaitLoad\<close>), for an inherited value that is
  no promise (\<open>AwaitValue\<close>: the \<open>await\<close> goes on with the value itself), or for the
  answer to its own packet (\<open>AwaitTransmit\<close>), or it has settled (\<open>Done\<close>).
\<close>

datatype phase = AwaitLoad nat | AwaitValue | AwaitTransmit | Done "error + bool"

record call =
  c_blockNumber :: nat
  c_keyType :: nat
  c_key :: string
  c_obsolete :: bool
  c_phase :: phase

text \<open>What a call did to \<open>pendingLoadAuthenticationKey\<close>: stored the entry of a key, or
  ran \<open>delete\<close> on it.\<close>

datatype pending_access = Stored nat string | Deleted nat string

record system =
  rdr :: reader
  promises :: "load_promise list"
  calls :: "nat \<Rightarrow> call option"
  sent :: "buffer list"
  accesses :: "pending_access list"

definition start_system :: "reader \<Rightarrow> system" where
  "start_system r = \<lparr>rdr = r, promises = [], calls = (\<lambda>n. None), sent = [], accesses = []\<rparr>"

datatype event =
    Authenticate nat nat nat string bool
  | LoadAnswer nat "error + buffer"
  | LoadAwaited nat
  | AuthAnswer nat "error + buffer"

text \<open>
  The call \<open>this.loadAuthenticationKey(keyNumber, key)\<close> inside \<open>authenticate\<close>, up to
  the point where it waits for the provider: the promise it returns and the packets sent.
\<close>

definition loadAuthenticationKey_start :: "reader \<Rightarrow> nat \<Rightarrow> key_arg \<Rightarrow> load_promise \<times> buffer list" where
  "loadAuthenticationKey_start r keyNumber k =
     (case loadAuthenticationKey_packet keyNumber k of
        Inl err \<Rightarrow> (LoadSettled (Inl err), [])
      | Inr (kb, packet) \<Rightarrow>
          if card' r = None \<or> connection r = None
            then (LoadSettled (Inl (Error LoadAuthenticationKeyError None
                    (Some (Error TransmitError (Some CARD_NOT_CONNECTED) None)))), [])
          else (LoadPending keyNumber kb, [packet]))"

text \<open>
  The rest of \<open>authenticate\<close> once the key number is known: build the packet and hand it to
  \<open>transmit\<close>, which fails at once without a card or a connection.
\<close>

definition authenticate_transmit :: "system \<Rightarrow> nat \<Rightarrow> call \<Rightarrow> nat \<Rightarrow> system" where
  "authenticate_transmit s cid c keyNumber =
     (let packet = authenticate_packet (c_blockNumber c) (c_keyType c) keyNumber (c_obsolete c)
      in if card' (rdr s) = None \<or> connection (rdr s) = None
           then s\<lparr>calls := (calls s)(cid := Some (c\<lparr>c_phase :=
                  Done (Inl (Error AuthenticationError None
                    (Some (Error TransmitError (Some CARD_NOT_CONNECTED) None))))\<rparr>))\<rparr>
         else s\<lparr>calls := (calls s)(cid := Some (c\<lparr>c_phase := AwaitTransmit\<rparr>)),
                sent := sent s @ [packet]\<rparr>)"

text \<open>
  A call of \<open>authenticate\<close>, up to its first \<open>await\<close>. A key found in a slot goes straight
  to the packet. Otherwise the call waits for the load of the key: the one in
  \<open>pendingLoadAuthenticationKey\<close> if there is one, else a load that it starts and stores
  there. For a key that is an inherited name and has no entry of its own, the test
  \<open>!this.pendingLoadAuthenticationKey[key]\<close> fails on the inherited value: no load is
  started, nothing is stored, and the call awaits that value.
\<close>

definition authenticate_call :: "system \<Rightarrow> nat \<Rightarrow> nat \<Rightarrow> nat \<Rightarrow> string \<Rightarrow> bool \<Rightarrow> system" where
  "authenticate_call s cid blockNumber keyType k obsolete =
     (let c = \<lparr>c_blockNumber = blockNumber, c_keyType = keyType, c_key = k,
                c_obsolete = obsolete, c_phase = AwaitTransmit\<rparr>
      in case findKeyNumber (rdr s) (Some k) of
           Some keyNumber \<Rightarrow> authenticate_transmit s cid c keyNumber
         | None \<Rightarrow>
             (case pendingLoadAuthenticationKey (rdr s) k of
                Some pid \<Rightarrow> s\<lparr>calls := (calls s)(cid := Some (c\<lparr>c_phase := AwaitLoad pid\<rparr>))\<rparr>
              | None \<Rightarrow>
                  if inherited_name k
                    then s\<lparr>calls := (calls s)(cid := Some (c\<lparr>c_phase := AwaitValue\<rparr>))\<rparr>
                  else
                  (case loadAuthenticationKey_start (rdr s) (authenticate_slot (rdr s)) (KeyString k) of
                     (promise, packets) \<Rightarrow>
                       s\<lparr>rdr := (rdr s)\<lparr>pendingLoadAuthenticationKey :=
                                (pendingLoadAuthenticationKey (rdr s))(k := Some (length (promises s)))\<rparr>,
                         promises := promises s @ [promise],
                         calls := (calls s)(cid := Some (c\<lparr>c_phase := AwaitLoad (length (promises s))\<rparr>)),
                         sent := sent s @ packets,
                         accesses := accesses s @ [Stored cid k]\<rparr>)))"

text \<open>The provider answers the packet of a pending load: the load goes on and settles.\<close>

definition load_answer :: "system \<Rightarrow> nat \<Rightarrow> error + buffer \<Rightarrow> system" where
  "load_answer s pid answer =
     (if pid < length (promises s) then
        (case promises s ! pid of
           LoadSettled res \<Rightarrow> s
         | LoadPending keyNumber kb \<Rightarrow>
             (case answer of
                Inl err \<Rightarrow>
                  s\<lparr>promises := (promises s)[pid := LoadSettled
                       (Inl (Error LoadAuthenticationKeyError None
                          (Some (Error TransmitError (Some FAILURE) (Some err)))))]\<rparr>
              | Inr response \<Rightarrow>
                  (case loadAuthenticationKey_response (rdr s) keyNumber kb response of
                     (res, r') \<Rightarrow> s\<lparr>rdr := r', promises := (promises s)[pid := LoadSettled res]\<rparr>)))
      else s)"

text \<open>
  A call that waits for a load goes on after its \<open>await\<close>, the promise being settled: the
  \<open>finally\<close> block deletes the entry of the key, whatever the outcome and whoever
  started the load; a rejection becomes \<open>unable_to_load_key\<close>, and a key number goes on to
  the packet. A call that awaited an inherited value goes on with it as its key number:
  \<open>delete\<close> removes an entry of the key's own only, and \<open>Buffer.from\<close> stores the
  value, which is no number, as the byte 0.
\<close>

definition load_awaited :: "system \<Rightarrow> nat \<Rightarrow> system" where
  "load_awaited s cid =
     (case calls s cid of
        None \<Rightarrow> s
      | Some c \<Rightarrow>
          (case c_phase c of
             AwaitLoad pid \<Rightarrow>
               if pid < length (promises s) then
                 (case promises s ! pid of
                    LoadPending keyNumber kb \<Rightarrow> s
                  | LoadSettled res \<Rightarrow>
                      let s1 = s\<lparr>rdr := (rdr s)\<lparr>pendingLoadAuthenticationKey :=
                                     (pendingLoadAuthenticationKey (rdr s))(c_key c := None)\<rparr>,
                                 accesses := accesses s @ [Deleted cid (c_key c)]\<rparr>
                      in (case res of
                            Inl err \<Rightarrow>
                              s1\<lparr>calls := (calls s1)(cid := Some (c\<lparr>c_phase :=
                                   Done (Inl (Error AuthenticationError (Some ''unable_to_load_key'')
                                     (Some err)))\<rparr>))\<rparr>
                          | Inr keyNumber \<Rightarrow> authenticate_transmit s1 cid c keyNumber))
               else s
           | AwaitValue \<Rightarrow>
               let s1 = s\<lparr>rdr := (rdr s)\<lparr>pendingLoadAuthenticationKey :=
                              (pendingLoadAuthenticationKey (rdr s))(c_key c := None)\<rparr>,
                          accesses := accesses s @ [Deleted cid (c_key c)]\<rparr>
               in authenticate_transmit s1 cid c 0
           | _ \<Rightarrow> s))"

text \<open>The provider answers the Authenticate packet of a call.\<close>

definition auth_answer :: "system \<Rightarrow> nat \<Rightarrow> error + buffer \<Rightarrow> system" where
  "auth_answer s cid answer =
     (case calls s cid of
        None \<Rightarrow> s
      | Some c \<Rightarrow>
          (case c_phase c of
             AwaitTransmit \<Rightarrow>
               s\<lparr>calls := (calls s)(cid := Some (c\<lparr>c_phase := Done (authenticate_response answer)\<rparr>))\<rparr>
           | _ \<Rightarrow> s))"

text \<open>
  One step. An event that cannot happen in the state (a call number in use, an answer nobody
  waits for, a continuation whose promise is not settled) leaves the state as it is.
\<close>

fun step :: "system \<Rightarrow> event \<Rightarrow> system" where
  "step s (Authenticate cid blockNumber keyType k obsolete) =
     (if calls s cid = None then authenticate_call s cid blockNumber keyType k obsolete else s)"
| "step s (LoadAnswer pid answer) = load_answer s pid answer"
| "step s (LoadAwaited cid) = load_awaited s cid"
| "step s (AuthAnswer cid answer) = auth_answer s cid answer"

definition run :: "system \<Rightarrow> event list \<Rightarrow> system" where
  "run s evs = foldl step s evs"

text \<open>Some call waits for a load of the key.\<close>

definition awaiting :: "system \<Rightarrow> string \<Rightarrow> bool" where
  "awaiting s k = (\<exists>cid c pid. calls s cid = Some c \<and> c_key c = k \<and> c_phase c = AwaitLoad pid)"

text \<open>The calls that stored an entry, and those that ran \<open>delete\<close>, for a key.\<close>

definition storers :: "system \<Rightarrow> string \<Rightarrow> nat list" where
  "storers s k = concat (map (\<lambda>a. case a of Stored cid k' \<Rightarrow> if k' = k then [cid] else []
                                   | Deleted cid k' \<Rightarrow> []) (accesses s))"

definition deleters :: "system \<Rightarrow> string \<Rightarrow> nat list" where
  "deleters s k = concat (map (\<lambda>a. case a of Deleted cid k' \<Rightarrow> if k' = k then [cid] else []
                                    | Stored cid k' \<Rightarrow> []) (accesses s))"

section \<open>Sub-requests and example inputs\<close>

text \<open>
  The sub-reads of a split \<open>read\<close>, in the order of the loop: each is one Read Binary
  APDU, since its size never exceeds \<open>packetSize\<close> (lemma \<open>read_split\<close> below).
\<close>

definition sub_reads ::
  "provider_transmit \<Rightarrow> reader \<Rightarrow> number \<Rightarrow> nat \<Rightarrow> nat \<Rightarrow> nat \<Rightarrow> byte
   \<Rightarrow> ((error + buffer) \<times> buffer list) list" where
  "sub_reads prov r blockNumber len blockSize packetSize readClass =
     map (\<lambda>i. read_apdu prov r (read_block blockNumber blockSize packetSize i)
                 (read_size len packetSize i) readClass)
       [0..<ceil_div len packetSize]"


text \<open>A reader with a card and an open connection, and some providers, for the examples.\<close>

definition connected_reader :: reader where
  "connected_reader = new_reader\<lparr>connection := Some \<lparr>share_type = 2, protocol = 2\<rparr>,
     card' := Some empty_card\<rparr>"

definition silent_provider :: provider_transmit where
  "silent_provider dat responseMaxLength proto = Inr []"

definition filling_provider :: provider_transmit where
  "filling_provider dat responseMaxLength proto =
     Inr (replicate (responseMaxLength - 2) 0xab @ [0x90, 0x00])"

definition short_provider :: provider_transmit where
  "short_provider dat responseMaxLength proto =
     (if dat = [0xff, 0xb0, 0x00, 0x00, 0x10] then Inr [0x01, 0x02, 0x03, 0x04, 0x90, 0x00]
      else Inr (replicate (responseMaxLength - 2) 0xab @ [0x90, 0x00]))"

definition accepting_provider :: provider_transmit where
  "accepting_provider dat responseMaxLength proto = Inr [0x90, 0x00]"

definition uid_provider :: provider_transmit where
  "uid_provider dat responseMaxLength proto =
     (if dat = [0xff, 0xca, 0x00, 0x00, 0x00] then Inr [0x04, 0xa1, 0xb2, 0xc3, 0x90, 0x00]
      else Inr [0x6a, 0x82])"

definition failing_provider :: provider where
  "failing_provider = \<lparr>SCARD_STATE_EMPTY = 0x10, SCARD_STATE_PRESENT = 0x20,
     SCARD_SHARE_DIRECT = 3, SCARD_SHARE_SHARED = 2, reader_state = 0x12,
     provider_connect = (\<lambda>m pr. Inl (Error ProviderError None None)),
     provider_disconnect = None,
     provider_transmit = uid_provider\<rparr>"

text \<open>Example inputs for the key slots and for concurrent calls.\<close>

definition key_ff :: string where "key_ff = ''FFFFFFFFFFFF''"


text \<open>The calls of \<open>authenticate\<close> in a list of events are all made with a key that is a
  hex string of six bytes.\<close>

fun hex_key_event :: "event \<Rightarrow> bool" where
  "hex_key_event (Authenticate cid blockNumber keyType k obsolete) = (length (hex_decode k) = 6)"
| "hex_key_event e = True"

definition hex_keys :: "event list \<Rightarrow> bool" where
  "hex_keys evs = list_all hex_key_event evs"

text \<open>Every entry of \<open>pendingLoadAuthenticationKey\<close> belongs to a key some call waits for.\<close>

definition pending_awaited :: "system \<Rightarrow> bool" where
  "pending_awaited s = (\<forall>k. pendingLoadAuthenticationKey (rdr s) k \<noteq> None \<longrightarrow> awaiting s k)"

text \<open>
  Two calls for the same key, made one after the other; then the provider accepts the key,
  and the calls go on in the order in which they began to wait. The states in between are
  named.
\<close>

definition two_calls :: "event list" where
  "two_calls = [Authenticate 1 4 0x60 key_ff False, Authenticate 2 5 0x60 key_ff False,
                LoadAnswer 0 (Inr [0x90, 0x00]), LoadAwaited 1, LoadAwaited 2]"

definition after_first :: system where
  "after_first = \<lparr>rdr = connected_reader\<lparr>pendingLoadAuthenticationKey := (\<lambda>k. None)(key_ff := Some 0)\<rparr>,
     promises = [LoadPending 0 [0xff, 0xff, 0xff, 0xff, 0xff, 0xff]],
     calls = (\<lambda>n. None)(1 := Some \<lparr>c_blockNumber = 4, c_keyType = 0x60, c_key = key_ff,
                                    c_obsolete = False, c_phase = AwaitLoad 0\<rparr>),
     sent = [[0xff, 0x82, 0x00, 0x00, 0x06, 0xff, 0xff, 0xff, 0xff, 0xff, 0xff]],
     accesses = [Stored 1 key_ff]\<rparr>"

definition after_second :: system where
  "after_second = after_first\<lparr>calls := (calls after_first)(2 := Some \<lparr>c_blockNumber = 5,
      c_keyType = 0x60, c_key = key_ff, c_obsolete = False, c_phase = AwaitLoad 0\<rparr>)\<rparr>"

definition after_answer :: system where
  "after_answer = after_second\<lparr>rdr := (rdr after_second)\<lparr>keyStorage :=
        (\<lambda>n. None)(0 := Some [0xff, 0xff, 0xff, 0xff, 0xff, 0xff])\<rparr>,
      promises := [LoadSettled (Inr 0)]\<rparr>"

definition after_first_resume :: system where
  "after_first_resume = after_answer\<lparr>rdr := (rdr after_answer)\<lparr>pendingLoadAuthenticationKey :=
        (\<lambda>k. None)\<rparr>,
      calls := (calls after_answer)(1 := Some \<lparr>c_blockNumber = 4, c_keyType = 0x60, c_key = key_ff,
                                    c_obsolete = False, c_phase = AwaitTransmit\<rparr>),
      sent := sent after_answer @ [[0xff, 0x86, 0x00, 0x00, 0x05, 0x01, 0x00, 0x04, 0x60, 0x00]],
      accesses := [Stored 1 key_ff, Deleted 1 key_ff]\<rparr>"

definition after_second_resume :: system where
  "after_second_resume = after_first_resume\<lparr>
      calls := (calls after_first_resume)(2 := Some \<lparr>c_blockNumber = 5, c_keyType = 0x60,
                  c_key = key_ff, c_obsolete = False, c_phase = AwaitTransmit\<rparr>),
      sent := sent after_first_resume @ [[0xff, 0x86, 0x00, 0x00, 0x05, 0x01, 0x00, 0x05, 0x60, 0x00]],
      accesses := [Stored 1 key_ff, Deleted 1 key_ff, Deleted 2 key_ff]\<rparr>"

text \<open>Three calls on a reader without a card, the third made after the first has gone on.\<close>

definition cardless_calls :: "event list" where
  "cardless_calls = [Authenticate 1 4 0x60 key_ff False, Authenticate 2 5 0x60 key_ff False,
                     LoadAwaited 1, Authenticate 3 6 0x60 key_ff False]"

section \<open>Properties\<close>

subsection \<open>Hexadecimal strings\<close>

lemma unhex_hex_digit: "n < 16 \<Longrightarrow> unhex (hex_digit n) = Some n"
  by (auto simp: unhex_def hex_digit_def Let_def)

lemma hex_decode_encode_byte:
  "hex_decode (hex_digit (unat b div 16) # hex_digit (unat b mod 16) # rest) = b # hex_decode rest"
proof -
  have lt: "unat b < 256" using unsigned_less [of b, where 'a = nat] by simp
  then have hi: "unat b div 16 < 16" by simp
  have lo: "unat b mod 16 < 16" by simp
  have "16 * (unat b div 16) + unat b mod 16 = unat b" by simp
  then show ?thesis
    by (simp add: unhex_hex_digit [OF hi] unhex_hex_digit [OF lo])
qed

lemma hex_decode_stops: "stops_decoding t \<Longrightarrow> hex_decode t = []"
  by (cases t rule: hex_decode.cases) (auto simp: hex_pair_def split: option.splits)

lemma hex_decode_encode_append:
  "stops_decoding t \<Longrightarrow> hex_decode (hex_encode bs @ t) = bs"
  by (induction bs) (simp_all add: hex_decode_stops hex_decode_encode_byte del: hex_decode.simps)

subsection \<open>Cards and the AID configuration\<close>

text \<open>
  C8. For every ATR of more than five bytes, \<open>selectStandardByAtr\<close> answers ISO 14443-3
  exactly when the byte at index 5 is \<open>0x4F\<close>, and ISO 14443-4 otherwise, also when that
  byte is \<open>0x00\<close>.
\<close>

theorem selectStandardByAtr_byte5:
  assumes "5 < length a"
  shows "(selectStandardByAtr a = TAG_ISO_14443_3 \<longleftrightarrow> a ! 5 = 0x4f)
       \<and> (a ! 5 \<noteq> 0x4f \<longrightarrow> selectStandardByAtr a = TAG_ISO_14443_4)
       \<and> (a ! 5 = 0x00 \<longrightarrow> selectStandardByAtr a = TAG_ISO_14443_4)"
  using assms
  by (simp add: selectStandardByAtr_def buf_index_def truthy_byte_def
      TAG_ISO_14443_3_def TAG_ISO_14443_4_def)

theorem selectStandardByAtr_byte5_witness:
  "5 < length [0x3b, 0x8f, 0x80, 0x01, 0x80, 0x4f, 0x0c :: byte]
   \<and> selectStandardByAtr [0x3b, 0x8f, 0x80, 0x01, 0x80, 0x4f, 0x0c] = TAG_ISO_14443_3
   \<and> selectStandardByAtr [0x3b, 0x8f, 0x80, 0x01, 0x80, 0x00, 0x0c] = TAG_ISO_14443_4"
  using selectStandardByAtr_byte5 [of "[0x3b, 0x8f, 0x80, 0x01, 0x80, 0x4f, 0x0c]"]
    selectStandardByAtr_byte5 [of "[0x3b, 0x8f, 0x80, 0x01, 0x80, 0x00, 0x0c]"]
  by simp

text \<open>
  C10. The \<open>aid\<close> setter never throws on a string: it stores the hex decoding of the
  string, which is cut at the first position where decoding stops (a pair that is not two
  hex digits, or an odd tail), so a string with no leading hex pair gives the empty buffer.
  Functions and Buffers are stored as they are; every other value is rejected with an
  \<open>Error\<close>.
\<close>

theorem set_aid_string_never_throws:
  "set_aid (ArgString s) = Inr (AidBuffer (hex_decode s))
   \<and> (stops_decoding t \<longrightarrow> set_aid (ArgString (hex_encode bs @ t)) = Inr (AidBuffer bs))
   \<and> (stops_decoding s \<longrightarrow> set_aid (ArgString s) = Inr (AidBuffer []))
   \<and> set_aid (ArgString ''zzzz'') = Inr (AidBuffer [])
   \<and> set_aid (ArgFunction f) = Inr (AidFunction f)
   \<and> set_aid (ArgBuffer b) = Inr (AidBuffer b)
   \<and> (\<forall>v. (\<exists>e. set_aid v = Inl e) \<longleftrightarrow> v = ArgOther)
   \<and> set_aid ArgOther = Inl (Error PlainError None None)"
proof -
  have zz: "hex_decode ''zzzz'' = []"
    by (simp add: unhex_def)
  have rej: "\<forall>v. (\<exists>e. set_aid v = Inl e) \<longleftrightarrow> v = ArgOther"
    by (auto simp: set_aid_def split: aid_arg.splits)
  show ?thesis
    using zz rej by (simp add: set_aid_def hex_decode_stops hex_decode_encode_append)
qed

theorem set_aid_string_never_throws_witness:
  "stops_decoding ''f'' \<and> stops_decoding ''xyf0''
   \<and> set_aid (ArgString ''f001f'') = Inr (AidBuffer [0xf0, 0x01])
   \<and> set_aid (ArgString ''xyf0'') = Inr (AidBuffer [])"
proof -
  have st: "stops_decoding ''f''" by simp
  have ss: "stops_decoding ''xyf0''" by (simp add: hex_pair_def unhex_def)
  have enc: "hex_encode [0xf0, 0x01] @ ''f'' = ''f001f''" by code_simp
  note th = set_aid_string_never_throws [of "''xyf0''" "''f''" "[0xf0, 0x01]"]
  from th st
  have "set_aid (ArgString (hex_encode [0xf0, 0x01] @ ''f'')) = Inr (AidBuffer [0xf0, 0x01])"
    by blast
  then have 1: "set_aid (ArgString ''f001f'') = Inr (AidBuffer [0xf0, 0x01])"
    by (simp only: enc)
  from th ss have 2: "set_aid (ArgString ''xyf0'') = Inr (AidBuffer [])"
    by blast
  show ?thesis using st ss 1 2 by blast
qed

subsection \<open>Block reads and writes\<close>

declare read.simps [simp del] write'.simps [simp del]

lemma promise_all_Inr: "first_error rs = None \<Longrightarrow> promise_all rs = Inr (map projr rs)"
  by (simp add: promise_all_def)

lemma first_error_None_iff: "first_error rs = None \<longleftrightarrow> (\<forall>x\<in>set rs. \<exists>v. x = Inr v)"
  by (induction rs rule: first_error.induct) auto

lemma read_single:
  "card' r \<noteq> None \<Longrightarrow> len \<le> packetSize \<Longrightarrow>
   read prov r blockNumber len blockSize packetSize readClass =
     (Some (fst (read_apdu prov r blockNumber len readClass)),
      snd (read_apdu prov r blockNumber len readClass))"
  by (auto simp: read.simps split: prod.splits)

lemma read_size_le: "read_size len packetSize i \<le> packetSize"
  by (auto simp: read_size_def)

lemma read_split:
  assumes "card' r \<noteq> None" "packetSize < len" "0 < packetSize"
  shows "read prov r blockNumber len blockSize packetSize readClass =
     (case promise_all (map fst (sub_reads prov r blockNumber len blockSize packetSize readClass)) of
        Inl err \<Rightarrow> (Some (Inl err), concat (map snd (sub_reads prov r blockNumber len blockSize packetSize readClass)))
      | Inr values \<Rightarrow> (Some (Inr (buffer_concat values len)),
           concat (map snd (sub_reads prov r blockNumber len blockSize packetSize readClass))))"
proof -
  have sub: "\<And>i. read prov r (read_block blockNumber blockSize packetSize i)
                 (read_size len packetSize i) blockSize packetSize readClass
        = (Some (fst (read_apdu prov r (read_block blockNumber blockSize packetSize i)
                 (read_size len packetSize i) readClass)),
           snd (read_apdu prov r (read_block blockNumber blockSize packetSize i)
                 (read_size len packetSize i) readClass))"
    using assms(1) by (rule read_single) (rule read_size_le)
  from assms(1) obtain c where c: "card' r = Some c" by auto
  have nn: "None \<notin> set (map fst (map (\<lambda>i. read prov r (read_block blockNumber blockSize packetSize i)
                                   (read_size len packetSize i) blockSize packetSize readClass)
                            [0..<ceil_div len packetSize]))"
    by (auto simp: sub)
  show ?thesis
    using assms(2,3) c
    by (subst read.simps) (auto simp add: sub sub_reads_def Let_def comp_def image_iff split: sum.splits)
qed

lemma less_ceil_div: "0 < b \<Longrightarrow> i < ceil_div a b \<longleftrightarrow> i * b < a"
proof -
  assume b: "0 < b"
  have "i < ceil_div a b \<longleftrightarrow> int i < \<lceil>(of_nat a :: rat) / of_nat b\<rceil>"
    by (simp add: ceil_div_def zless_nat_eq_int_zless)
  also have "\<dots> \<longleftrightarrow> (of_nat i :: rat) < of_nat a / of_nat b"
    by (simp add: less_ceiling_iff)
  also have "\<dots> \<longleftrightarrow> (of_nat i :: rat) * of_nat b < of_nat a"
    using b by (simp add: pos_less_divide_eq)
  also have "\<dots> \<longleftrightarrow> i * b < a"
    by (simp only: of_nat_mult [symmetric] of_nat_less_iff)
  finally show ?thesis .
qed

lemma read_size_min: "read_size len packetSize i = min packetSize (len - i * packetSize)"
  by (auto simp: read_size_def min_def)

lemma sum_read_size_upto:
  assumes "0 < packetSize"
  shows "n \<le> ceil_div len packetSize \<Longrightarrow>
         sum_list (map (read_size len packetSize) [0..<n]) = min (n * packetSize) len"
proof (induction n)
  case 0
  then show ?case by simp
next
  case (Suc n)
  then have "n < ceil_div len packetSize" by simp
  then have "n * packetSize < len" using assms by (simp add: less_ceil_div)
  with Suc show ?case by (auto simp: read_size_def min_def)
qed

lemma sum_read_size:
  assumes "0 < packetSize"
  shows "sum_list (map (read_size len packetSize) [0..<ceil_div len packetSize]) = len"
proof -
  have "\<not> ceil_div len packetSize * packetSize < len"
    using less_ceil_div [OF assms, of "ceil_div len packetSize" len] by simp
  then show ?thesis
    using sum_read_size_upto [OF assms, of "ceil_div len packetSize" len] by simp
qed

lemma length_buffer_concat: "vs \<noteq> [] \<Longrightarrow> length (buffer_concat vs n) = n"
  by (auto simp: buffer_concat_def)

lemma buffer_concat_exact: "length (concat vs) = n \<Longrightarrow> buffer_concat vs n = concat vs"
  by (auto simp: buffer_concat_def)

lemma transmit_connected:
  "card' r \<noteq> None \<Longrightarrow> connection r = Some c \<Longrightarrow>
   snd (transmit prov r dat n) = [dat]"
  by (auto simp: transmit_def split: sum.splits)

lemma read_apdu_sent:
  "card' r \<noteq> None \<Longrightarrow> connection r = Some c \<Longrightarrow>
   snd (read_apdu prov r b n rc) = [[rc, 0xb0, high_byte b, low_byte b, of_nat n]]"
  using transmit_connected [of r c prov "[rc, 0xb0, high_byte b, low_byte b, of_nat n]" "n + 2"]
  by (auto simp: read_apdu_def Let_def split: prod.splits sum.splits)

lemma readUInt16BE_last2:
  "2 \<le> length b \<Longrightarrow>
   readUInt16BE (slice_last2 b) = Inr (256 * unat (b ! (length b - 2)) + unat (b ! (length b - 1)))"
proof -
  assume "2 \<le> length b"
  then have "Suc (length b - 2) = length b - 1" by arith
  with \<open>2 \<le> length b\<close> show ?thesis
    by (simp add: readUInt16BE_def slice_last2_def)
qed

lemma read_apdu_response:
  assumes "card' r \<noteq> None" and "connection r = Some c"
    and "prov [readClass, 0xb0, high_byte blockNumber, low_byte blockNumber, of_nat len]
           (len + 2) (protocol c) = Inr response"
  shows "fst (read_apdu prov r blockNumber len readClass) =
     (if length response < 2 then Inl (Error ReadError (Some OPERATION_FAILED) None)
      else if readUInt16BE (slice_last2 response) \<noteq> Inr 0x9000
        then Inl (Error ReadError (Some OPERATION_FAILED) None)
      else Inr (slice_drop_last2 response))"
  using assms by (auto simp: read_apdu_def transmit_def Let_def)

text \<open>
  C3, as the code has it. A \<open>read\<close> of at most \<open>packetSize\<close> bytes, with a card and
  a connection, sends one Read Binary APDU. If the provider's response has fewer than two
  bytes, the read fails with a \<open>ReadError\<close> whose code is \<open>operation_failed\<close>;
  otherwise the last two bytes are read as a big-endian status word, and on \<open>0x9000\<close>
  the payload is the response without its last two bytes; any other status word fails with
  \<open>ReadError\<close> and \<open>operation_failed\<close> too.
\<close>

theorem read_response_validation:
  assumes "card' r \<noteq> None" and "connection r = Some c" and "len \<le> packetSize"
    and "prov [readClass, 0xb0, high_byte blockNumber, low_byte blockNumber, of_nat len]
           (len + 2) (protocol c) = Inr response"
  shows "(length response < 2 \<longrightarrow>
            fst (read prov r blockNumber len blockSize packetSize readClass)
              = Some (Inl (Error ReadError (Some ''operation_failed'') None)))
       \<and> (2 \<le> length response \<longrightarrow>
            readUInt16BE (slice_last2 response)
              = Inr (256 * unat (response ! (length response - 2))
                       + unat (response ! (length response - 1))))
       \<and> (2 \<le> length response \<and> readUInt16BE (slice_last2 response) = Inr 0x9000 \<longrightarrow>
            fst (read prov r blockNumber len blockSize packetSize readClass)
              = Some (Inr (take (length response - 2) response)))
       \<and> (2 \<le> length response \<and> readUInt16BE (slice_last2 response) \<noteq> Inr 0x9000 \<longrightarrow>
            fst (read prov r blockNumber len blockSize packetSize readClass)
              = Some (Inl (Error ReadError (Some ''operation_failed'') None)))"
  using read_apdu_response [of r c prov readClass blockNumber len response, OF assms(1,2,4)]
    readUInt16BE_last2 [of response]
  by (simp add: read_single [OF assms(1,3)] OPERATION_FAILED_def slice_drop_last2_def)

theorem read_response_validation_witness:
  "card' connected_reader \<noteq> None
   \<and> connection connected_reader = Some \<lparr>share_type = 2, protocol = 2\<rparr>
   \<and> (4 :: nat) \<le> 16
   \<and> filling_provider [0xff, 0xb0, high_byte (Finite 4), low_byte (Finite 4), of_nat 4] (4 + 2)
         (protocol \<lparr>share_type = 2, protocol = 2\<rparr>) = Inr [0xab, 0xab, 0xab, 0xab, 0x90, 0x00]
   \<and> readUInt16BE (slice_last2 [0xab, 0xab, 0xab, 0xab, 0x90, 0x00]) = Inr 0x9000
   \<and> fst (read filling_provider connected_reader (Finite 4) 4 4 16 0xff)
         = Some (Inr [0xab, 0xab, 0xab, 0xab])
   \<and> silent_provider [0xff, 0xb0, high_byte (Finite 4), low_byte (Finite 4), of_nat 4] (4 + 2)
         (protocol \<lparr>share_type = 2, protocol = 2\<rparr>) = Inr []
   \<and> fst (read silent_provider connected_reader (Finite 4) 4 4 16 0xff)
         = Some (Inl (Error ReadError (Some ''operation_failed'') None))"
proof -
  have c: "card' connected_reader \<noteq> None"
    and n: "connection connected_reader = Some \<lparr>share_type = 2, protocol = 2\<rparr>"
    by (simp_all add: connected_reader_def new_reader_def)
  have l: "(4 :: nat) \<le> 16" by simp
  have f: "filling_provider [0xff, 0xb0, high_byte (Finite 4), low_byte (Finite 4), of_nat 4]
             (4 + 2) (protocol \<lparr>share_type = 2, protocol = 2\<rparr>)
           = Inr [0xab, 0xab, 0xab, 0xab, 0x90, 0x00]"
    by (simp add: filling_provider_def numeral_eq_Suc)
  have s: "silent_provider [0xff, 0xb0, high_byte (Finite 4), low_byte (Finite 4), of_nat 4]
             (4 + 2) (protocol \<lparr>share_type = 2, protocol = 2\<rparr>) = Inr []"
    by (simp add: silent_provider_def)
  have st: "readUInt16BE (slice_last2 [0xab, 0xab, 0xab, 0xab, 0x90, 0x00]) = Inr 0x9000"
    by (simp add: readUInt16BE_def slice_last2_def)
  from read_response_validation [where r = connected_reader
      and c = "\<lparr>share_type = 2, protocol = 2\<rparr>" and len = 4 and packetSize = 16
      and prov = filling_provider and readClass = "0xff" and blockNumber = "Finite 4"
      and response = "[0xab, 0xab, 0xab, 0xab, 0x90, 0x00]" and blockSize = 4] c n l f st
  have 1: "fst (read filling_provider connected_reader (Finite 4) 4 4 16 0xff)
         = Some (Inr [0xab, 0xab, 0xab, 0xab])"
    by simp
  from read_response_validation [where r = connected_reader
      and c = "\<lparr>share_type = 2, protocol = 2\<rparr>" and len = 4 and packetSize = 16
      and prov = silent_provider and readClass = "0xff" and blockNumber = "Finite 4"
      and response = "[]" and blockSize = 4] c n l s
  have 2: "fst (read silent_provider connected_reader (Finite 4) 4 4 16 0xff)
         = Some (Inl (Error ReadError (Some ''operation_failed'') None))"
    by simp
  from c n l f s st 1 2 show ?thesis by blast
qed

text \<open>
  C3 as stated fails: on an empty response the error's code is \<open>operation_failed\<close>,
  not \<open>invalid_response\<close>.
\<close>

theorem read_short_response_counterexample:
  "fst (read silent_provider connected_reader (Finite 4) 4 4 16 0xff)
     = Some (Inl (Error ReadError (Some ''operation_failed'') None))
   \<and> fst (read silent_provider connected_reader (Finite 4) 4 4 16 0xff)
     \<noteq> Some (Inl (Error ReadError (Some ''invalid_response'') None))"
  by (simp add: read.simps read_apdu_def transmit_def silent_provider_def connected_reader_def
      new_reader_def OPERATION_FAILED_def)

lemma read_apdu_not_sent:
  "connection r = None \<Longrightarrow> snd (read_apdu prov r b n rc) = []"
  by (auto simp: read_apdu_def transmit_def Let_def)

lemma concat_map_singleton: "concat (map (\<lambda>i. [g i]) xs) = map g xs"
  by (induction xs) simp_all

lemma read_split_sent:
  assumes "card' r \<noteq> None" "packetSize < len" "0 < packetSize"
  shows "snd (read prov r blockNumber len blockSize packetSize readClass)
         = concat (map snd (sub_reads prov r blockNumber len blockSize packetSize readClass))"
  by (simp add: read_split [OF assms] split: sum.splits)

lemma read_split_success:
  assumes "card' r \<noteq> None" "packetSize < len" "0 < packetSize"
    and "\<forall>x\<in>set (sub_reads prov r blockNumber len blockSize packetSize readClass). \<exists>v. fst x = Inr v"
  shows "fst (read prov r blockNumber len blockSize packetSize readClass)
         = Some (Inr (buffer_concat
             (map (projr \<circ> fst) (sub_reads prov r blockNumber len blockSize packetSize readClass))
             len))"
proof -
  have "first_error (map fst (sub_reads prov r blockNumber len blockSize packetSize readClass)) = None"
    using assms(4) by (auto simp: first_error_None_iff)
  then show ?thesis
    by (simp add: read_split [OF assms(1-3)] promise_all_Inr)
qed

lemma sub_reads_nth:
  "i < ceil_div len packetSize \<Longrightarrow>
   sub_reads prov r blockNumber len blockSize packetSize readClass ! i
     = read_apdu prov r (js_plus blockNumber (js_divide (i * packetSize) blockSize))
         (min packetSize (len - i * packetSize)) readClass"
  by (simp add: sub_reads_def read_block_def read_size_min)

lemma sub_reads_exact_total:
  assumes "0 < packetSize"
    and "\<forall>i<ceil_div len packetSize. \<exists>v.
           fst (sub_reads prov r blockNumber len blockSize packetSize readClass ! i) = Inr v
           \<and> length v = min packetSize (len - i * packetSize)"
  shows "length (concat (map (projr \<circ> fst)
            (sub_reads prov r blockNumber len blockSize packetSize readClass))) = len"
proof -
  let ?subs = "sub_reads prov r blockNumber len blockSize packetSize readClass"
  have len: "length ?subs = ceil_div len packetSize" by (simp add: sub_reads_def)
  have "map (length \<circ> (projr \<circ> fst)) ?subs = map (read_size len packetSize) [0..<ceil_div len packetSize]"
  proof (rule nth_equalityI)
    show "length (map (length \<circ> (projr \<circ> fst)) ?subs)
          = length (map (read_size len packetSize) [0..<ceil_div len packetSize])"
      by (simp add: len)
  next
    fix i assume "i < length (map (length \<circ> (projr \<circ> fst)) ?subs)"
    then have i: "i < ceil_div len packetSize" by (simp add: len)
    with assms(2) obtain v where "fst (?subs ! i) = Inr v"
      and "length v = min packetSize (len - i * packetSize)" by blast
    with i show "map (length \<circ> (projr \<circ> fst)) ?subs ! i
                 = map (read_size len packetSize) [0..<ceil_div len packetSize] ! i"
      by (simp add: len read_size_min)
  qed
  then have "sum_list (map (length \<circ> (projr \<circ> fst)) ?subs) = len"
    by (simp add: sum_read_size [OF assms(1)])
  then show ?thesis
    by (simp add: length_concat comp_def)
qed

lemma ceil_div_pos: "0 < packetSize \<Longrightarrow> packetSize < len \<Longrightarrow> 0 < ceil_div len packetSize"
  using less_ceil_div [of packetSize 0 len] by simp

text \<open>
  The two block bytes of a Read Binary packet, for a block number that is a natural number
  plus a quotient and stays below \<open>2 ^ 16\<close>: they hold its integer part.
\<close>

lemma trunc_zero_block:
  "0 < c \<Longrightarrow> trunc_zero (of_nat b + of_nat a / of_nat c) = int (b + a div c)"
proof -
  assume "0 < c"
  have nn: "(0 :: rat) \<le> of_nat b + of_nat a / of_nat c" by simp
  have "\<lfloor>(of_nat b :: rat) + of_nat a / of_nat c\<rfloor> = \<lfloor>(of_nat b :: rat)\<rfloor> + \<lfloor>(of_nat a :: rat) / of_nat c\<rfloor>"
    by (rule floor_add2) simp
  also have "\<dots> = int b + int (a div c)"
    by (simp add: floor_divide_of_nat_eq)
  finally show ?thesis using nn by (simp add: trunc_zero_def)
qed

lemma block_bytes:
  assumes "0 < c" and "b + a div c < 65536"
  shows "256 * unat (high_byte (js_plus (Finite (of_nat b)) (js_divide a c)))
           + unat (low_byte (js_plus (Finite (of_nat b)) (js_divide a c)))
         = b + a div c"
proof -
  let ?n = "b + a div c"
  have blk: "js_plus (Finite (of_nat b)) (js_divide a c) = Finite (of_nat b + of_nat a / of_nat c)"
    using assms(1) by (simp add: js_plus_def js_divide_def)
  have lo: "low_byte (Finite (of_nat b + of_nat a / of_nat c)) = (of_nat ?n :: byte)"
    using assms(1) by (simp add: low_byte_def trunc_zero_block)
  have "int ?n div 256 = int (?n div 256)" by (simp add: zdiv_int)
  then have hi: "high_byte (Finite (of_nat b + of_nat a / of_nat c)) = (of_nat (?n div 256) :: byte)"
    using assms(1) by (simp add: high_byte_def trunc_zero_block del: of_nat_add)
  have "?n div 256 < 256" using assms(2) by simp
  then have "unat (of_nat (?n div 256) :: byte) = ?n div 256"
    by (simp only: unat_of_nat) simp
  moreover have "unat (of_nat ?n :: byte) = ?n mod 256"
    by (simp only: unat_of_nat) simp
  ultimately show ?thesis
    by (simp only: blk lo hi) simp
qed

text \<open>
  C4, as the code has it. For \<open>length > packetSize \<ge> 1\<close>, a card present, a block
  number that is a natural number \<open>b\<close> with \<open>b + length \<le> 2 ^ 16\<close>, and
  \<open>blockSize \<le> 2 ^ 16\<close>, \<open>read\<close>
  issues exactly \<open>\<lceil>length / packetSize\<rceil>\<close> sub-reads; sub-read \<open>i\<close> starts at
  \<open>b + (i * packetSize) / blockSize\<close>, whose integer part the two block bytes of its
  packet hold, and asks for
  \<open>min packetSize (length - i * packetSize)\<close> bytes; with a connection, these are the
  packets sent, in this order. When all sub-reads succeed, the result is
  \<open>Buffer.concat(values, length)\<close>: exactly \<open>length\<close> bytes, the sub-results in request
  order, cut at \<open>length\<close> or filled up with zeros. It is the concatenation itself when
  every sub-read returns as many bytes as it asked for.
\<close>

theorem read_split_sub_reads:
  assumes "card' r \<noteq> None" and "packetSize < len" and "0 < packetSize"
    and "blockNumber = Finite (of_nat b)" and "b + len \<le> 65536" and "blockSize \<le> 65536"
  shows "length (sub_reads prov r blockNumber len blockSize packetSize readClass)
           = nat \<lceil>(of_nat len :: rat) / of_nat packetSize\<rceil>
       \<and> (\<forall>i<nat \<lceil>(of_nat len :: rat) / of_nat packetSize\<rceil>.
            sub_reads prov r blockNumber len blockSize packetSize readClass ! i
              = read_apdu prov r (js_plus blockNumber (js_divide (i * packetSize) blockSize))
                  (min packetSize (len - i * packetSize)) readClass)
       \<and> (\<forall>i<nat \<lceil>(of_nat len :: rat) / of_nat packetSize\<rceil>.
            read prov r (js_plus blockNumber (js_divide (i * packetSize) blockSize))
                (min packetSize (len - i * packetSize)) blockSize packetSize readClass
              = (Some (fst (sub_reads prov r blockNumber len blockSize packetSize readClass ! i)),
                 snd (sub_reads prov r blockNumber len blockSize packetSize readClass ! i)))
       \<and> (\<forall>q i. blockNumber = Finite q \<and> 0 < blockSize \<longrightarrow>
            js_plus blockNumber (js_divide (i * packetSize) blockSize)
              = Finite (q + of_nat (i * packetSize) / of_nat blockSize))
       \<and> (0 < blockSize \<longrightarrow>
            (\<forall>i<nat \<lceil>(of_nat len :: rat) / of_nat packetSize\<rceil>.
               256 * unat (high_byte (js_plus blockNumber (js_divide (i * packetSize) blockSize)))
                 + unat (low_byte (js_plus blockNumber (js_divide (i * packetSize) blockSize)))
               = b + (i * packetSize) div blockSize))
       \<and> snd (read prov r blockNumber len blockSize packetSize readClass)
           = concat (map snd (sub_reads prov r blockNumber len blockSize packetSize readClass))
       \<and> (connection r \<noteq> None \<longrightarrow>
            snd (read prov r blockNumber len blockSize packetSize readClass)
              = map (\<lambda>i. [readClass, 0xb0,
                           high_byte (js_plus blockNumber (js_divide (i * packetSize) blockSize)),
                           low_byte (js_plus blockNumber (js_divide (i * packetSize) blockSize)),
                           of_nat (min packetSize (len - i * packetSize))])
                  [0..<nat \<lceil>(of_nat len :: rat) / of_nat packetSize\<rceil>])
       \<and> ((\<forall>x\<in>set (sub_reads prov r blockNumber len blockSize packetSize readClass).
              \<exists>v. fst x = Inr v) \<longrightarrow>
            fst (read prov r blockNumber len blockSize packetSize readClass)
              = Some (Inr (buffer_concat (map (projr \<circ> fst)
                    (sub_reads prov r blockNumber len blockSize packetSize readClass)) len))
            \<and> length (buffer_concat (map (projr \<circ> fst)
                    (sub_reads prov r blockNumber len blockSize packetSize readClass)) len) = len)
       \<and> ((\<forall>i<nat \<lceil>(of_nat len :: rat) / of_nat packetSize\<rceil>. \<exists>v.
              fst (sub_reads prov r blockNumber len blockSize packetSize readClass ! i) = Inr v
              \<and> length v = min packetSize (len - i * packetSize)) \<longrightarrow>
            fst (read prov r blockNumber len blockSize packetSize readClass)
              = Some (Inr (concat (map (projr \<circ> fst)
                    (sub_reads prov r blockNumber len blockSize packetSize readClass)))))"
proof -
  let ?subs = "sub_reads prov r blockNumber len blockSize packetSize readClass"
  let ?p = "nat \<lceil>(of_nat len :: rat) / of_nat packetSize\<rceil>"
  have p: "ceil_div len packetSize = ?p" by (simp add: ceil_div_def)
  have 1: "length ?subs = ?p" by (simp add: sub_reads_def ceil_div_def)
  have 2: "\<forall>i<?p. ?subs ! i
              = read_apdu prov r (js_plus blockNumber (js_divide (i * packetSize) blockSize))
                  (min packetSize (len - i * packetSize)) readClass"
    using sub_reads_nth [of _ len packetSize prov r blockNumber blockSize readClass]
    by (simp add: p)
  have r2: "\<forall>i<?p.
            read prov r (js_plus blockNumber (js_divide (i * packetSize) blockSize))
                (min packetSize (len - i * packetSize)) blockSize packetSize readClass
              = (Some (fst (?subs ! i)), snd (?subs ! i))"
    using 2 by (simp add: read_single [OF assms(1)])
  have 3: "\<forall>q i. blockNumber = Finite q \<and> 0 < blockSize \<longrightarrow>
            js_plus blockNumber (js_divide (i * packetSize) blockSize)
              = Finite (q + of_nat (i * packetSize) / of_nat blockSize)"
    by (simp add: js_plus_def js_divide_def)
  have 4: "snd (read prov r blockNumber len blockSize packetSize readClass) = concat (map snd ?subs)"
    by (rule read_split_sent [OF assms(1-3)])
  have 5: "connection r \<noteq> None \<longrightarrow>
            snd (read prov r blockNumber len blockSize packetSize readClass)
              = map (\<lambda>i. [readClass, 0xb0,
                           high_byte (js_plus blockNumber (js_divide (i * packetSize) blockSize)),
                           low_byte (js_plus blockNumber (js_divide (i * packetSize) blockSize)),
                           of_nat (min packetSize (len - i * packetSize))])
                  [0..<?p]"
  proof
    assume "connection r \<noteq> None"
    then obtain c where c: "connection r = Some c" by auto
    have "map snd ?subs = map (\<lambda>i. [[readClass, 0xb0,
                           high_byte (js_plus blockNumber (js_divide (i * packetSize) blockSize)),
                           low_byte (js_plus blockNumber (js_divide (i * packetSize) blockSize)),
                           of_nat (min packetSize (len - i * packetSize))]]) [0..<?p]"
      by (simp add: sub_reads_def p read_apdu_sent [OF assms(1) c] read_block_def read_size_min)
    then show "snd (read prov r blockNumber len blockSize packetSize readClass)
              = map (\<lambda>i. [readClass, 0xb0,
                           high_byte (js_plus blockNumber (js_divide (i * packetSize) blockSize)),
                           low_byte (js_plus blockNumber (js_divide (i * packetSize) blockSize)),
                           of_nat (min packetSize (len - i * packetSize))])
                  [0..<?p]"
      by (simp add: 4 concat_map_singleton)
  qed
  have ne: "map (projr \<circ> fst) ?subs \<noteq> []"
    using ceil_div_pos [OF assms(3,2)] by (simp add: sub_reads_def)
  have 6: "(\<forall>x\<in>set ?subs. \<exists>v. fst x = Inr v) \<longrightarrow>
            fst (read prov r blockNumber len blockSize packetSize readClass)
              = Some (Inr (buffer_concat (map (projr \<circ> fst) ?subs) len))
            \<and> length (buffer_concat (map (projr \<circ> fst) ?subs) len) = len"
    using read_split_success [OF assms(1-3)] length_buffer_concat [OF ne] by blast
  have 7: "(\<forall>i<?p. \<exists>v. fst (?subs ! i) = Inr v
              \<and> length v = min packetSize (len - i * packetSize)) \<longrightarrow>
            fst (read prov r blockNumber len blockSize packetSize readClass)
              = Some (Inr (concat (map (projr \<circ> fst) ?subs)))"
  proof
    assume a: "\<forall>i<?p. \<exists>v. fst (?subs ! i) = Inr v
              \<and> length v = min packetSize (len - i * packetSize)"
    have all: "\<forall>x\<in>set ?subs. \<exists>v. fst x = Inr v"
    proof
      fix x assume "x \<in> set ?subs"
      then obtain i where "i < length ?subs" and "x = ?subs ! i"
        by (auto simp: in_set_conv_nth)
      with a 1 show "\<exists>v. fst x = Inr v" by auto
    qed
    have "length (concat (map (projr \<circ> fst) ?subs)) = len"
      using sub_reads_exact_total [OF assms(3), of len prov r blockNumber blockSize readClass] a
      by (simp add: p)
    then have "buffer_concat (map (projr \<circ> fst) ?subs) len = concat (map (projr \<circ> fst) ?subs)"
      by (rule buffer_concat_exact)
    with 6 all show "fst (read prov r blockNumber len blockSize packetSize readClass)
              = Some (Inr (concat (map (projr \<circ> fst) ?subs)))"
      by simp
  qed
  have 8: "0 < blockSize \<longrightarrow>
            (\<forall>i<?p.
               256 * unat (high_byte (js_plus blockNumber (js_divide (i * packetSize) blockSize)))
                 + unat (low_byte (js_plus blockNumber (js_divide (i * packetSize) blockSize)))
               = b + (i * packetSize) div blockSize)"
  proof (intro impI allI)
    fix i assume bs: "0 < blockSize" and "i < ?p"
    then have "i < ceil_div len packetSize" by (simp add: p)
    then have "i * packetSize < len" using assms(3) by (simp add: less_ceil_div)
    moreover have "(i * packetSize) div blockSize \<le> i * packetSize" by (rule div_le_dividend)
    ultimately have "b + (i * packetSize) div blockSize < 65536" using assms(5) by linarith
    with bs show "256 * unat (high_byte (js_plus blockNumber (js_divide (i * packetSize) blockSize)))
                 + unat (low_byte (js_plus blockNumber (js_divide (i * packetSize) blockSize)))
               = b + (i * packetSize) div blockSize"
      unfolding assms(4) by (rule block_bytes)
  qed
  from 1 2 r2 3 4 5 6 7 8 show ?thesis by blast
qed

lemma card_connected_reader: "card' connected_reader = Some empty_card"
  and connection_connected_reader:
    "connection connected_reader = Some \<lparr>share_type = 2, protocol = 2\<rparr>"
  by (simp_all add: connected_reader_def new_reader_def)

lemma byte_of_small: "high_byte (Finite 0) = 0" "low_byte (Finite 0) = 0"
  "high_byte (Finite 4) = 0" "low_byte (Finite 4) = 4"
  by (simp_all add: high_byte_def low_byte_def trunc_zero_def)

lemma upt_2: "[0..<2] = [0, Suc 0]"
  by (simp add: numeral_2_eq_2)

lemma apdu_short_0:
  "read_apdu short_provider connected_reader (Finite 0) 16 0xff
     = (Inr [0x01, 0x02, 0x03, 0x04], [[0xff, 0xb0, 0x00, 0x00, 0x10]])"
  by (simp add: read_apdu_def transmit_def short_provider_def card_connected_reader
      connection_connected_reader byte_of_small readUInt16BE_def slice_last2_def
      slice_drop_last2_def)

lemma apdu_short_4:
  "read_apdu short_provider connected_reader (Finite 4) 16 0xff
     = (Inr (replicate 16 0xab), [[0xff, 0xb0, 0x00, 0x04, 0x10]])"
  by (simp add: read_apdu_def transmit_def short_provider_def card_connected_reader
      connection_connected_reader byte_of_small readUInt16BE_def slice_last2_def
      slice_drop_last2_def)

lemma sub_reads_short:
  "sub_reads short_provider connected_reader (Finite 0) 32 4 16 0xff
     = [(Inr [0x01, 0x02, 0x03, 0x04], [[0xff, 0xb0, 0x00, 0x00, 0x10]]),
        (Inr (replicate 16 0xab), [[0xff, 0xb0, 0x00, 0x04, 0x10]])]"
  by (simp add: sub_reads_def ceil_div_def upt_2 read_block_def read_size_def js_plus_def
      js_divide_def apdu_short_0 apdu_short_4)

text \<open>
  C4 as stated fails: \<open>read(0, 32, 4, 16)\<close> whose first sub-read returns only four
  bytes succeeds, but what it returns is not the concatenation of the two sub-results: it
  is that concatenation followed by twelve zero bytes.
\<close>

theorem read_short_sub_result_counterexample:
  "fst (read short_provider connected_reader (Finite 0) 16 4 16 0xff)
     = Some (Inr [0x01, 0x02, 0x03, 0x04])
   \<and> fst (read short_provider connected_reader (Finite 4) 16 4 16 0xff)
     = Some (Inr (replicate 16 0xab))
   \<and> fst (read short_provider connected_reader (Finite 0) 32 4 16 0xff)
     = Some (Inr ([0x01, 0x02, 0x03, 0x04] @ replicate 16 0xab @ replicate 12 0x00))
   \<and> fst (read short_provider connected_reader (Finite 0) 32 4 16 0xff)
     \<noteq> Some (Inr ([0x01, 0x02, 0x03, 0x04] @ replicate 16 0xab))"
proof -
  have c: "card' connected_reader \<noteq> None" by (simp add: card_connected_reader)
  have 1: "fst (read short_provider connected_reader (Finite 0) 16 4 16 0xff)
     = Some (Inr [0x01, 0x02, 0x03, 0x04])"
    by (simp add: read_single [OF c] apdu_short_0)
  have 2: "fst (read short_provider connected_reader (Finite 4) 16 4 16 0xff)
     = Some (Inr (replicate 16 0xab))"
    by (simp add: read_single [OF c] apdu_short_4)
  have 3: "fst (read short_provider connected_reader (Finite 0) 32 4 16 0xff)
     = Some (Inr ([0x01, 0x02, 0x03, 0x04] @ replicate 16 0xab @ replicate 12 0x00))"
    by (simp add: read_split [OF c] sub_reads_short promise_all_def buffer_concat_def)
  have "length ([0x01, 0x02, 0x03, 0x04] @ replicate 16 0xab @ replicate 12 (0x00 :: byte))
        \<noteq> length ([0x01, 0x02, 0x03, 0x04] @ replicate 16 (0xab :: byte))"
    by simp
  then have 4: "[0x01, 0x02, 0x03, 0x04] @ replicate 16 0xab @ replicate 12 (0x00 :: byte)
        \<noteq> [0x01, 0x02, 0x03, 0x04] @ replicate 16 (0xab :: byte)"
    by fastforce
  from 1 2 3 4 show ?thesis by simp
qed











lemma apdu_fill_0:
  "read_apdu filling_provider connected_reader (Finite 0) 16 0xff
     = (Inr (replicate 16 0xab), [[0xff, 0xb0, 0x00, 0x00, 0x10]])"
  by (simp add: read_apdu_def transmit_def filling_provider_def card_connected_reader
      connection_connected_reader byte_of_small readUInt16BE_def slice_last2_def
      slice_drop_last2_def)

lemma apdu_fill_4:
  "read_apdu filling_provider connected_reader (Finite 4) 16 0xff
     = (Inr (replicate 16 0xab), [[0xff, 0xb0, 0x00, 0x04, 0x10]])"
  by (simp add: read_apdu_def transmit_def filling_provider_def card_connected_reader
      connection_connected_reader byte_of_small readUInt16BE_def slice_last2_def
      slice_drop_last2_def)

lemma sub_reads_fill:
  "sub_reads filling_provider connected_reader (Finite 0) 32 4 16 0xff
     = [(Inr (replicate 16 0xab), [[0xff, 0xb0, 0x00, 0x00, 0x10]]),
        (Inr (replicate 16 0xab), [[0xff, 0xb0, 0x00, 0x04, 0x10]])]"
  by (simp add: sub_reads_def ceil_div_def upt_2 read_block_def read_size_def js_plus_def
      js_divide_def apdu_fill_0 apdu_fill_4)

theorem read_split_sub_reads_witness:
  "card' connected_reader \<noteq> None \<and> (16 :: nat) < 32 \<and> (0 :: nat) < 16
   \<and> Finite 0 = Finite (of_nat 0) \<and> (0 :: nat) + 32 \<le> 65536 \<and> (4 :: nat) \<le> 65536
   \<and> nat \<lceil>(of_nat 32 :: rat) / of_nat 16\<rceil> = 2
   \<and> snd (read filling_provider connected_reader (Finite 0) 32 4 16 0xff)
       = [[0xff, 0xb0, 0x00, 0x00, 0x10], [0xff, 0xb0, 0x00, 0x04, 0x10]]
   \<and> fst (read filling_provider connected_reader (Finite 0) 32 4 16 0xff)
       = Some (Inr (replicate 16 0xab @ replicate 16 0xab))"
proof -
  have c: "card' connected_reader \<noteq> None"
    by (simp add: card_connected_reader)
  have l: "(16 :: nat) < 32" and z: "(0 :: nat) < 16" by simp_all
  have p: "nat \<lceil>(of_nat 32 :: rat) / of_nat 16\<rceil> = 2" by simp
  have b: "Finite 0 = Finite (of_nat 0)" "(0 :: nat) + 32 \<le> 65536" "(4 :: nat) \<le> 65536"
    by simp_all
  note th = read_split_sub_reads [OF c l z b, of filling_provider "0xff"]
  from th have "snd (read filling_provider connected_reader (Finite 0) 32 4 16 0xff)
       = concat (map snd (sub_reads filling_provider connected_reader (Finite 0) 32 4 16 0xff))"
    by blast
  then have s: "snd (read filling_provider connected_reader (Finite 0) 32 4 16 0xff)
       = [[0xff, 0xb0, 0x00, 0x00, 0x10], [0xff, 0xb0, 0x00, 0x04, 0x10]]"
    by (simp add: sub_reads_fill)
  have ex: "\<forall>i<nat \<lceil>(of_nat 32 :: rat) / of_nat 16\<rceil>. \<exists>v.
              fst (sub_reads filling_provider connected_reader (Finite 0) 32 4 16 0xff ! i) = Inr v
              \<and> length v = min 16 (32 - i * 16)"
    by (simp add: sub_reads_fill less_Suc_eq numeral_2_eq_2)
  from th ex have "fst (read filling_provider connected_reader (Finite 0) 32 4 16 0xff)
       = Some (Inr (concat (map (projr \<circ> fst)
            (sub_reads filling_provider connected_reader (Finite 0) 32 4 16 0xff))))"
    by blast
  then have f: "fst (read filling_provider connected_reader (Finite 0) 32 4 16 0xff)
       = Some (Inr (replicate 16 0xab @ replicate 16 0xab))"
    by (simp add: sub_reads_fill)
  from c l z b p s f show ?thesis by blast
qed





subsection \<open>The tag dispatcher\<close>

text \<open>
  C9. When a card is present and its standard is neither ISO 14443-3 nor ISO 14443-4 (a
  card inserted without an ATR has none), \<open>handleTag\<close> runs the ISO 14443-3 handler: it
  asks for the UID and, on a successful response, stores the UID in the card and emits
  \<open>card\<close>; no error is raised for the missing standard.
\<close>

theorem handleTag_default_is_uid_path:
  assumes "card' r = Some cd"
    and "standard cd \<noteq> Some TAG_ISO_14443_3" and "standard cd \<noteq> Some TAG_ISO_14443_4"
  shows "handleTag prov r = handle_Iso_14443_3_Tag prov r
       \<and> (\<forall>c response. connection r = Some c
             \<and> prov [0xff, 0xca, 0x00, 0x00, 0x00] 12 (protocol c) = Inr response
             \<and> 2 \<le> length response \<and> readUInt16BE (slice_last2 response) = Inr 0x9000 \<longrightarrow>
            handleTag prov r
              = (r\<lparr>card' := Some (cd\<lparr>uid := Some (hex_encode (slice_drop_last2 response))\<rparr>)\<rparr>,
                 [(EventName ''card'',
                   [PCard (cd\<lparr>uid := Some (hex_encode (slice_drop_last2 response))\<rparr>)])],
                 [[0xff, 0xca, 0x00, 0x00, 0x00]], None))"
  using assms
  by (auto simp: handleTag_def handle_Iso_14443_3_Tag_def transmit_def Let_def)

theorem handleTag_default_is_uid_path_witness:
  "card' connected_reader = Some empty_card
   \<and> standard empty_card \<noteq> Some TAG_ISO_14443_3 \<and> standard empty_card \<noteq> Some TAG_ISO_14443_4
   \<and> handleTag uid_provider connected_reader
       = (connected_reader\<lparr>card' := Some (empty_card\<lparr>uid := Some ''04a1b2c3''\<rparr>)\<rparr>,
          [(EventName ''card'', [PCard (empty_card\<lparr>uid := Some ''04a1b2c3''\<rparr>)])],
          [[0xff, 0xca, 0x00, 0x00, 0x00]], None)"
proof -
  have c: "card' connected_reader = Some empty_card"
    by (simp add: connected_reader_def new_reader_def)
  have s: "standard empty_card \<noteq> Some TAG_ISO_14443_3" "standard empty_card \<noteq> Some TAG_ISO_14443_4"
    by (simp_all add: empty_card_def)
  have n: "connection connected_reader = Some \<lparr>share_type = 2, protocol = 2\<rparr>"
    by (simp add: connected_reader_def new_reader_def)
  have p: "uid_provider [0xff, 0xca, 0x00, 0x00, 0x00] 12 (protocol \<lparr>share_type = 2, protocol = 2\<rparr>)
             = Inr [0x04, 0xa1, 0xb2, 0xc3, 0x90, 0x00]"
    by (simp add: uid_provider_def)
  have st: "2 \<le> length [0x04, 0xa1, 0xb2, 0xc3, 0x90, 0x00 :: byte]"
    "readUInt16BE (slice_last2 [0x04, 0xa1, 0xb2, 0xc3, 0x90, 0x00]) = Inr 0x9000"
    by (simp_all add: readUInt16BE_def slice_last2_def)
  have h: "hex_encode (slice_drop_last2 [0x04, 0xa1, 0xb2, 0xc3, 0x90, 0x00]) = ''04a1b2c3''"
    by code_simp
  from handleTag_default_is_uid_path [OF c s, of uid_provider] n p st
  have "handleTag uid_provider connected_reader
       = (connected_reader\<lparr>card' := Some (empty_card\<lparr>uid := Some (hex_encode
             (slice_drop_last2 [0x04, 0xa1, 0xb2, 0xc3, 0x90, 0x00]))\<rparr>)\<rparr>,
          [(EventName ''card'', [PCard (empty_card\<lparr>uid := Some (hex_encode
             (slice_drop_last2 [0x04, 0xa1, 0xb2, 0xc3, 0x90, 0x00]))\<rparr>)])],
          [[0xff, 0xca, 0x00, 0x00, 0x00]], None)"
    by blast
  then have "handleTag uid_provider connected_reader
       = (connected_reader\<lparr>card' := Some (empty_card\<lparr>uid := Some ''04a1b2c3''\<rparr>)\<rparr>,
          [(EventName ''card'', [PCard (empty_card\<lparr>uid := Some ''04a1b2c3''\<rparr>)])],
          [[0xff, 0xca, 0x00, 0x00, 0x00]], None)"
    by (simp only: h)
  with c s show ?thesis by blast
qed

subsection \<open>The status handler\<close>

text \<open>
  C2 does not hold of the code. When a card is inserted and the provider's \<open>connect\<close>
  fails, the handler catches the \<open>ConnectError\<close> and calls \<open>this.emit(err)\<close>: the
  error names the channel and nothing is emitted on \<open>'error'\<close>, so a listener of
  \<open>'error'\<close> is not called.
\<close>

theorem status_handler_connect_error_not_on_error_channel:
  "status_handler failing_provider new_reader 0x22 None
     = (new_reader\<lparr>card' := Some empty_card\<rparr>,
        [(EventObject (Error ConnectError (Some ''failure'') (Some (Error ProviderError None None))), [])],
        [])
   \<and> observed ''error'' (fst (snd (status_handler failing_provider new_reader 0x22 None))) = []"
  by (simp add: status_handler_def failing_provider_def connect_def modes_def
      CONNECT_MODE_CARD_def CONNECT_MODE_DIRECT_def FAILURE_def observed_def Let_def)

subsection \<open>Key slots and authentication\<close>

lemma authenticate_slot_eq:
  "authenticate_slot r
     = (if keyStorage r 0 = None then 0 else if keyStorage r (Suc 0) = None then Suc 0 else 0)"
  by (auto simp: authenticate_slot_def findKeyNumber_def Let_def split: option.splits)



lemma response_ok:
  "loadAuthenticationKey_response r n kb [0x90, 0x00]
     = (Inr n, r\<lparr>keyStorage := (keyStorage r)(n := Some kb)\<rparr>)"
  by (simp add: loadAuthenticationKey_response_def readUInt16BE_def)

text \<open>A key whose hex decoding has six bytes starts with twelve hex digits: it is no
  inherited name.\<close>

lemma hex_key_not_inherited: "length (hex_decode k) = 6 \<Longrightarrow> \<not> inherited_name k"
  by (auto simp: inherited_name_def unhex_def)


lemma hex_decode_key_ff: "hex_decode key_ff = [0xff, 0xff, 0xff, 0xff, 0xff, 0xff]"
  by (simp add: key_ff_def unhex_def)

lemma key_ff_not_inherited: "\<not> inherited_name key_ff"
  by (rule hex_key_not_inherited) (simp add: hex_decode_key_ff)

lemma lower_key_ff: "toLowerCase key_ff = ''ffffffffffff''"
  unfolding key_ff_def by code_simp

lemma hex_encode_ff: "toLowerCase (hex_encode [0xff, 0xff, 0xff, 0xff, 0xff, 0xff]) = ''ffffffffffff''"
  by code_simp




lemma findKeyNumber_loaded:
  "toLowerCase (hex_encode kb) = toLowerCase k \<Longrightarrow>
   findKeyNumber (r\<lparr>keyStorage := (keyStorage r)(0 := Some kb)\<rparr>) (Some k) = Some 0"
  by (simp add: findKeyNumber_def)

text \<open>
  C7. With a card and a connection, \<open>loadAuthenticationKey(0, "FFFFFFFFFFFF")\<close> sends
  exactly \<open>FF 82 00 00 06 FF FF FF FF FF FF\<close> and, on the response \<open>90 00\<close>, stores the
  six bytes in slot 0 and returns 0; \<open>authenticate(4, 0x60, "FFFFFFFFFFFF")\<close> after it
  finds the key in slot 0, sends exactly \<open>FF 86 00 00 05 01 00 04 60 00\<close> and, on the
  response \<open>90 00\<close>, returns \<open>true\<close>.
\<close>

theorem load_then_authenticate:
  assumes "card' r \<noteq> None" and "connection r = Some c"
    and "prov [0xff, 0x82, 0x00, 0x00, 0x06, 0xff, 0xff, 0xff, 0xff, 0xff, 0xff] 2 (protocol c)
           = Inr [0x90, 0x00]"
  shows "loadAuthenticationKey prov r 0 (KeyString ''FFFFFFFFFFFF'')
           = (Inr 0,
              r\<lparr>keyStorage := (keyStorage r)(0 := Some [0xff, 0xff, 0xff, 0xff, 0xff, 0xff])\<rparr>,
              [[0xff, 0x82, 0x00, 0x00, 0x06, 0xff, 0xff, 0xff, 0xff, 0xff, 0xff]])
       \<and> sent (step (start_system (fst (snd (loadAuthenticationKey prov r 0 (KeyString ''FFFFFFFFFFFF'')))))
                 (Authenticate cid 4 0x60 ''FFFFFFFFFFFF'' False))
           = [[0xff, 0x86, 0x00, 0x00, 0x05, 0x01, 0x00, 0x04, 0x60, 0x00]]
       \<and> map_option c_phase
            (calls (run (start_system (fst (snd (loadAuthenticationKey prov r 0 (KeyString ''FFFFFFFFFFFF'')))))
                     [Authenticate cid 4 0x60 ''FFFFFFFFFFFF'' False, AuthAnswer cid (Inr [0x90, 0x00])])
               cid)
           = Some (Done (Inr True))"
proof -
  let ?r' = "r\<lparr>keyStorage := (keyStorage r)(0 := Some [0xff, 0xff, 0xff, 0xff, 0xff, 0xff])\<rparr>"
  have d: "hex_decode ''FFFFFFFFFFFF'' = [0xff, 0xff, 0xff, 0xff, 0xff, 0xff]"
    using hex_decode_key_ff by (simp only: key_ff_def)
  have 1: "loadAuthenticationKey prov r 0 (KeyString ''FFFFFFFFFFFF'')
           = (Inr 0, ?r', [[0xff, 0x82, 0x00, 0x00, 0x06, 0xff, 0xff, 0xff, 0xff, 0xff, 0xff]])"
    using assms
    by (simp add: loadAuthenticationKey_def loadAuthenticationKey_packet_def d transmit_def
        response_ok del: hex_decode.simps)
  have "toLowerCase (hex_encode [0xff, 0xff, 0xff, 0xff, 0xff, 0xff]) = toLowerCase ''FFFFFFFFFFFF''"
    using lower_key_ff hex_encode_ff by (simp only: key_ff_def)
  then have f: "findKeyNumber ?r' (Some ''FFFFFFFFFFFF'') = Some 0"
    by (rule findKeyNumber_loaded)
  have cc: "card' ?r' \<noteq> None" "connection ?r' \<noteq> None" using assms by simp_all
  let ?s1 = "step (start_system ?r') (Authenticate cid 4 0x60 ''FFFFFFFFFFFF'' False)"
  have s1: "?s1 = (start_system ?r')\<lparr>calls := (calls (start_system ?r'))(cid := Some
                \<lparr>c_blockNumber = 4, c_keyType = 0x60, c_key = ''FFFFFFFFFFFF'', c_obsolete = False,
                 c_phase = AwaitTransmit\<rparr>),
              sent := [[0xff, 0x86, 0x00, 0x00, 0x05, 0x01, 0x00, 0x04, 0x60, 0x00]]\<rparr>"
  proof -
    from assms(1) obtain cd where cd: "card' r = Some cd" by auto
    have rs: "rdr (start_system ?r') = ?r'" "calls (start_system ?r') cid = None"
      "sent (start_system ?r') = []"
      by (simp_all add: start_system_def)
    show ?thesis
      using f cd assms(2)
      by (simp add: authenticate_call_def authenticate_transmit_def authenticate_packet_def
          rs Let_def)
  qed
  have 2: "sent ?s1 = [[0xff, 0x86, 0x00, 0x00, 0x05, 0x01, 0x00, 0x04, 0x60, 0x00]]"
    by (simp only: s1; simp)
  have "map_option c_phase (calls (step ?s1 (AuthAnswer cid (Inr [0x90, 0x00]))) cid)
           = Some (Done (Inr True))"
    by (simp only: s1) (simp add: auth_answer_def authenticate_response_def readUInt16BE_def)
  then have 3: "map_option c_phase
            (calls (run (start_system ?r')
                     [Authenticate cid 4 0x60 ''FFFFFFFFFFFF'' False, AuthAnswer cid (Inr [0x90, 0x00])])
               cid)
           = Some (Done (Inr True))"
    by (simp only: run_def foldl.simps)
  from 1 2 3 show ?thesis by (simp only: fst_conv snd_conv; simp)
qed

theorem load_then_authenticate_witness:
  "card' connected_reader \<noteq> None
   \<and> connection connected_reader = Some \<lparr>share_type = 2, protocol = 2\<rparr>
   \<and> accepting_provider [0xff, 0x82, 0x00, 0x00, 0x06, 0xff, 0xff, 0xff, 0xff, 0xff, 0xff] 2
         (protocol \<lparr>share_type = 2, protocol = 2\<rparr>) = Inr [0x90, 0x00]
   \<and> loadAuthenticationKey accepting_provider connected_reader 0 (KeyString ''FFFFFFFFFFFF'')
       = (Inr 0,
          connected_reader\<lparr>keyStorage :=
            (keyStorage connected_reader)(0 := Some [0xff, 0xff, 0xff, 0xff, 0xff, 0xff])\<rparr>,
          [[0xff, 0x82, 0x00, 0x00, 0x06, 0xff, 0xff, 0xff, 0xff, 0xff, 0xff]])
   \<and> map_option c_phase
        (calls (run (start_system (fst (snd (loadAuthenticationKey accepting_provider
                        connected_reader 0 (KeyString ''FFFFFFFFFFFF'')))))
                 [Authenticate 1 4 0x60 ''FFFFFFFFFFFF'' False, AuthAnswer 1 (Inr [0x90, 0x00])])
           1)
       = Some (Done (Inr True))"
proof -
  have c: "card' connected_reader \<noteq> None" by (simp add: card_connected_reader)
  have n: "connection connected_reader = Some \<lparr>share_type = 2, protocol = 2\<rparr>"
    by (rule connection_connected_reader)
  have p: "accepting_provider [0xff, 0x82, 0x00, 0x00, 0x06, 0xff, 0xff, 0xff, 0xff, 0xff, 0xff] 2
         (protocol \<lparr>share_type = 2, protocol = 2\<rparr>) = Inr [0x90, 0x00]"
    by (simp add: accepting_provider_def)
  from load_then_authenticate [where r = connected_reader
      and c = "\<lparr>share_type = 2, protocol = 2\<rparr>" and prov = accepting_provider and cid = 1] c n p
  show ?thesis by blast
qed

lemma pending_authenticate_transmit [simp]:
  "pendingLoadAuthenticationKey (rdr (authenticate_transmit s cid c n))
     = pendingLoadAuthenticationKey (rdr s)"
  by (simp add: authenticate_transmit_def Let_def)

lemma calls_authenticate_transmit:
  "\<exists>ph. calls (authenticate_transmit s cid c n) = (calls s)(cid := Some (c\<lparr>c_phase := ph\<rparr>))
        \<and> (\<forall>pid. ph \<noteq> AwaitLoad pid)"
  by (auto simp: authenticate_transmit_def Let_def)

lemma accesses_authenticate_transmit [simp]:
  "accesses (authenticate_transmit s cid c n) = accesses s"
  by (simp add: authenticate_transmit_def Let_def)

lemma pending_response [simp]:
  "pendingLoadAuthenticationKey (snd (loadAuthenticationKey_response r n kb resp))
     = pendingLoadAuthenticationKey r"
  by (simp add: loadAuthenticationKey_response_def split: sum.splits)

lemma awaiting_fresh:
  assumes "calls s cid = None" and "awaiting s k"
  shows "awaiting (s\<lparr>calls := (calls s)(cid := Some c)\<rparr>) k"
proof -
  from assms(2) obtain cid' c' pid where h: "calls s cid' = Some c'" "c_key c' = k"
    "c_phase c' = AwaitLoad pid"
    by (auto simp: awaiting_def)
  with assms(1) have "cid' \<noteq> cid" by auto
  with h show ?thesis by (auto simp: awaiting_def)
qed

lemma awaiting_cong:
  "calls s' = calls s \<Longrightarrow> awaiting s' k = awaiting s k"
  by (simp add: awaiting_def)

lemma pending_awaited_authenticate_call:
  assumes "pending_awaited s" and "calls s cid = None"
  shows "pending_awaited (authenticate_call s cid b kt k ob)"
proof (cases "findKeyNumber (rdr s) (Some k)")
  case (Some n)
  let ?c = "\<lparr>c_blockNumber = b, c_keyType = kt, c_key = k, c_obsolete = ob, c_phase = AwaitTransmit\<rparr>"
  obtain ph where ph: "calls (authenticate_transmit s cid ?c n) = (calls s)(cid := Some (?c\<lparr>c_phase := ph\<rparr>))"
    using calls_authenticate_transmit [of s cid ?c n] by blast
  have "awaiting (authenticate_transmit s cid ?c n) k'" if "awaiting s k'" for k'
  proof -
    from awaiting_fresh [OF assms(2) that, of "?c\<lparr>c_phase := ph\<rparr>"]
    show ?thesis by (simp add: awaiting_def ph)
  qed
  with assms(1) Some show ?thesis
    by (simp add: pending_awaited_def authenticate_call_def Let_def)
next
  case None
  show ?thesis
  proof (cases "pendingLoadAuthenticationKey (rdr s) k")
    case (Some pid)
    have "awaiting (s\<lparr>calls := (calls s)(cid := Some c)\<rparr>) k'" if "awaiting s k'" for k' c
      using awaiting_fresh [OF assms(2) that] .
    with assms(1) None Some show ?thesis
      by (simp add: pending_awaited_def authenticate_call_def Let_def)
  next
    case n: None
    show ?thesis
    proof (cases "inherited_name k")
      case True
      have "awaiting (s\<lparr>calls := (calls s)(cid := Some c)\<rparr>) k'" if "awaiting s k'" for k' c
        using awaiting_fresh [OF assms(2) that] .
      with assms(1) None n True show ?thesis
        by (simp add: pending_awaited_def authenticate_call_def Let_def)
    next
      case False
    obtain pr pk where st: "loadAuthenticationKey_start (rdr s) (authenticate_slot (rdr s)) (KeyString k) = (pr, pk)"
      by (cases "loadAuthenticationKey_start (rdr s) (authenticate_slot (rdr s)) (KeyString k)")
    let ?c = "\<lparr>c_blockNumber = b, c_keyType = kt, c_key = k, c_obsolete = ob,
               c_phase = AwaitLoad (length (promises s))\<rparr>"
    have new: "authenticate_call s cid b kt k ob
       = s\<lparr>rdr := (rdr s)\<lparr>pendingLoadAuthenticationKey :=
                                (pendingLoadAuthenticationKey (rdr s))(k := Some (length (promises s)))\<rparr>,
                         promises := promises s @ [pr],
                         calls := (calls s)(cid := Some ?c),
                         sent := sent s @ pk,
                         accesses := accesses s @ [Stored cid k]\<rparr>"
      using None n st False by (simp add: authenticate_call_def)
    have a: "awaiting (authenticate_call s cid b kt k ob) k"
      by (simp only: new) (auto simp: awaiting_def)
    have b: "awaiting (authenticate_call s cid b kt k ob) k'" if "awaiting s k'" for k'
      using awaiting_fresh [OF assms(2) that, of ?c]
      by (simp only: new) (simp add: awaiting_def)
    have p: "pendingLoadAuthenticationKey (rdr (authenticate_call s cid b kt k ob))
               = (pendingLoadAuthenticationKey (rdr s))(k := Some (length (promises s)))"
      by (simp only: new) simp
    show ?thesis
      unfolding pending_awaited_def
    proof (intro allI impI)
      fix k' assume "pendingLoadAuthenticationKey (rdr (authenticate_call s cid b kt k ob)) k' \<noteq> None"
      then have "k' = k \<or> pendingLoadAuthenticationKey (rdr s) k' \<noteq> None"
        by (simp add: p split: if_splits)
      with assms(1) a b show "awaiting (authenticate_call s cid b kt k ob) k'"
        by (auto simp: pending_awaited_def)
    qed
    qed
  qed
qed

lemma pending_awaited_load_answer:
  assumes "pending_awaited s"
  shows "pending_awaited (load_answer s pid answer)"
proof -
  have c: "calls (load_answer s pid answer) = calls s"
    by (simp add: load_answer_def split: load_promise.splits sum.splits prod.splits)
  have p: "pendingLoadAuthenticationKey (rdr (load_answer s pid answer))
             = pendingLoadAuthenticationKey (rdr s)"
    using pending_response
    by (auto simp: load_answer_def split: load_promise.splits sum.splits prod.splits
        simp del: pending_response dest!: arg_cong [where f = snd])
  from assms show ?thesis
    by (simp add: pending_awaited_def p awaiting_cong [OF c])
qed

lemma pending_awaited_auth_answer:
  assumes "pending_awaited s"
  shows "pending_awaited (auth_answer s cid answer)"
proof (cases "\<exists>c. calls s cid = Some c \<and> c_phase c = AwaitTransmit")
  case False
  then have "auth_answer s cid answer = s"
    by (auto simp: auth_answer_def split: option.splits phase.splits)
  with assms show ?thesis by simp
next
  case True
  then obtain c where c: "calls s cid = Some c" "c_phase c = AwaitTransmit" by blast
  have eq: "auth_answer s cid answer
      = s\<lparr>calls := (calls s)(cid := Some (c\<lparr>c_phase := Done (authenticate_response answer)\<rparr>))\<rparr>"
    using c by (simp add: auth_answer_def)
  have "awaiting (auth_answer s cid answer) k" if "awaiting s k" for k
  proof -
    from that obtain cid' c' pid where h: "calls s cid' = Some c'" "c_key c' = k"
      "c_phase c' = AwaitLoad pid"
      by (auto simp: awaiting_def)
    with c have "cid' \<noteq> cid" by auto
    with h show ?thesis by (simp only: eq) (auto simp: awaiting_def)
  qed
  moreover have "pendingLoadAuthenticationKey (rdr (auth_answer s cid answer))
      = pendingLoadAuthenticationKey (rdr s)"
    by (simp only: eq) simp
  ultimately show ?thesis using assms by (simp add: pending_awaited_def)
qed

lemma load_awaited_settled:
  assumes "calls s cid = Some c" "c_phase c = AwaitLoad pid" "pid < length (promises s)"
    "promises s ! pid = LoadSettled res"
  shows "pendingLoadAuthenticationKey (rdr (load_awaited s cid))
           = (pendingLoadAuthenticationKey (rdr s))(c_key c := None)"
    and "accesses (load_awaited s cid) = accesses s @ [Deleted cid (c_key c)]"
    and "\<exists>ph. calls (load_awaited s cid) = (calls s)(cid := Some (c\<lparr>c_phase := ph\<rparr>))
           \<and> (\<forall>p. ph \<noteq> AwaitLoad p)"
proof -
  let ?s1 = "s\<lparr>rdr := (rdr s)\<lparr>pendingLoadAuthenticationKey :=
                                     (pendingLoadAuthenticationKey (rdr s))(c_key c := None)\<rparr>,
                                 accesses := accesses s @ [Deleted cid (c_key c)]\<rparr>"
  have eq: "load_awaited s cid = (case res of
                            Inl err \<Rightarrow>
                              ?s1\<lparr>calls := (calls ?s1)(cid := Some (c\<lparr>c_phase :=
                                   Done (Inl (Error AuthenticationError (Some ''unable_to_load_key'')
                                     (Some err)))\<rparr>))\<rparr>
                          | Inr keyNumber \<Rightarrow> authenticate_transmit ?s1 cid c keyNumber)"
    using assms by (simp add: load_awaited_def Let_def)
  show "pendingLoadAuthenticationKey (rdr (load_awaited s cid))
           = (pendingLoadAuthenticationKey (rdr s))(c_key c := None)"
    by (simp only: eq) (simp split: sum.splits)
  show "accesses (load_awaited s cid) = accesses s @ [Deleted cid (c_key c)]"
    by (simp only: eq) (simp split: sum.splits)
  show "\<exists>ph. calls (load_awaited s cid) = (calls s)(cid := Some (c\<lparr>c_phase := ph\<rparr>))
           \<and> (\<forall>p. ph \<noteq> AwaitLoad p)"
  proof (cases res)
    case (Inl err)
    then show ?thesis by (simp only: eq) auto
  next
    case (Inr n)
    with calls_authenticate_transmit [of ?s1 cid c n] show ?thesis
      by (simp only: eq) auto
  qed
qed

lemma load_awaited_value:
  assumes "calls s cid = Some c" "c_phase c = AwaitValue"
  shows "pendingLoadAuthenticationKey (rdr (load_awaited s cid))
           = (pendingLoadAuthenticationKey (rdr s))(c_key c := None)"
    and "accesses (load_awaited s cid) = accesses s @ [Deleted cid (c_key c)]"
    and "\<exists>ph. calls (load_awaited s cid) = (calls s)(cid := Some (c\<lparr>c_phase := ph\<rparr>))
           \<and> (\<forall>p. ph \<noteq> AwaitLoad p)"
proof -
  let ?s1 = "s\<lparr>rdr := (rdr s)\<lparr>pendingLoadAuthenticationKey :=
                                     (pendingLoadAuthenticationKey (rdr s))(c_key c := None)\<rparr>,
                                 accesses := accesses s @ [Deleted cid (c_key c)]\<rparr>"
  have eq: "load_awaited s cid = authenticate_transmit ?s1 cid c 0"
    using assms by (simp add: load_awaited_def Let_def)
  show "pendingLoadAuthenticationKey (rdr (load_awaited s cid))
           = (pendingLoadAuthenticationKey (rdr s))(c_key c := None)"
    by (simp only: eq) simp
  show "accesses (load_awaited s cid) = accesses s @ [Deleted cid (c_key c)]"
    by (simp only: eq) simp
  show "\<exists>ph. calls (load_awaited s cid) = (calls s)(cid := Some (c\<lparr>c_phase := ph\<rparr>))
           \<and> (\<forall>p. ph \<noteq> AwaitLoad p)"
    using calls_authenticate_transmit [of ?s1 cid c 0] by (simp only: eq) auto
qed

lemma load_awaited_effect:
  "load_awaited s cid = s
   \<or> (\<exists>c ph. calls s cid = Some c
         \<and> pendingLoadAuthenticationKey (rdr (load_awaited s cid))
             = (pendingLoadAuthenticationKey (rdr s))(c_key c := None)
         \<and> calls (load_awaited s cid) = (calls s)(cid := Some (c\<lparr>c_phase := ph\<rparr>))
         \<and> (\<forall>p. ph \<noteq> AwaitLoad p))"
proof (cases "calls s cid")
  case None
  then show ?thesis by (simp add: load_awaited_def)
next
  case (Some c)
  show ?thesis
  proof (cases "c_phase c")
    case (AwaitLoad pid)
    show ?thesis
    proof (cases "pid < length (promises s)")
      case False
      with Some AwaitLoad show ?thesis by (simp add: load_awaited_def)
    next
      case True
      show ?thesis
      proof (cases "promises s ! pid")
        case (LoadPending n kb)
        with Some AwaitLoad True show ?thesis by (simp add: load_awaited_def)
      next
        case (LoadSettled res)
        from load_awaited_settled(1,3) [OF Some AwaitLoad True LoadSettled] Some
        show ?thesis by blast
      qed
    qed
  next
    case AwaitValue
    from load_awaited_value(1,3) [OF Some AwaitValue] Some show ?thesis by blast
  next
    case AwaitTransmit
    with Some show ?thesis by (simp add: load_awaited_def)
  next
    case (Done res)
    with Some show ?thesis by (simp add: load_awaited_def)
  qed
qed

lemma pending_awaited_load_awaited:
  assumes "pending_awaited s"
  shows "pending_awaited (load_awaited s cid)"
proof (cases "load_awaited s cid = s")
  case True
  with assms show ?thesis by simp
next
  case False
  with load_awaited_effect [of s cid]
  obtain c ph where c: "calls s cid = Some c"
    and pe: "pendingLoadAuthenticationKey (rdr (load_awaited s cid))
             = (pendingLoadAuthenticationKey (rdr s))(c_key c := None)"
    and ph: "calls (load_awaited s cid) = (calls s)(cid := Some (c\<lparr>c_phase := ph\<rparr>))"
    by blast
  show ?thesis
    unfolding pending_awaited_def
  proof (intro allI impI)
    fix k assume "pendingLoadAuthenticationKey (rdr (load_awaited s cid)) k \<noteq> None"
    then have k: "k \<noteq> c_key c" "pendingLoadAuthenticationKey (rdr s) k \<noteq> None"
      by (simp_all add: pe split: if_splits)
    with assms have "awaiting s k" by (simp add: pending_awaited_def)
    then obtain cid' c' pid' where h: "calls s cid' = Some c'" "c_key c' = k"
      "c_phase c' = AwaitLoad pid'"
      by (auto simp: awaiting_def)
    with c k have "cid' \<noteq> cid" by auto
    with h show "awaiting (load_awaited s cid) k"
      by (auto simp: awaiting_def ph)
  qed
qed

lemma pending_awaited_step: "pending_awaited s \<Longrightarrow> pending_awaited (step s e)"
  by (cases e)
    (simp_all add: pending_awaited_authenticate_call pending_awaited_load_answer
      pending_awaited_load_awaited pending_awaited_auth_answer)

lemma pending_awaited_run: "pending_awaited s \<Longrightarrow> pending_awaited (run s evs)"
  unfolding run_def
  by (induction evs arbitrary: s) (simp_all add: pending_awaited_step)

lemma pending_awaited_start:
  "pendingLoadAuthenticationKey r = (\<lambda>k. None) \<Longrightarrow> pending_awaited (start_system r)"
  by (simp add: pending_awaited_def start_system_def)

lemma connected_reader_fields:
  "keyStorage connected_reader = (\<lambda>n. None)"
  "pendingLoadAuthenticationKey connected_reader = (\<lambda>k. None)"
  by (simp_all add: connected_reader_def new_reader_def)

lemma findKeyNumber_empty:
  "keyStorage r = (\<lambda>n. None) \<Longrightarrow> findKeyNumber r (Some k) = None"
  by (simp add: findKeyNumber_def)

text \<open>
  A call with the key \<open>toString\<close> on a reader with empty slots: no load is started and
  nothing is stored; after the \<open>await\<close> the \<open>delete\<close> runs and the Authentication
  command goes out with key number 0, which is what \<open>Buffer.from\<close> makes of a function.
\<close>

lemma toString_inherited: "inherited_name ''toString''"
  by (simp add: inherited_name_def)

lemma authenticate_inherited_key:
  "sent (run (start_system connected_reader)
           [Authenticate 1 4 0x60 ''toString'' False, LoadAwaited 1])
     = [[0xff, 0x86, 0x00, 0x00, 0x05, 0x01, 0x00, 0x04, 0x60, 0x00]]"
  "promises (run (start_system connected_reader)
           [Authenticate 1 4 0x60 ''toString'' False, LoadAwaited 1]) = []"
  "accesses (run (start_system connected_reader)
           [Authenticate 1 4 0x60 ''toString'' False, LoadAwaited 1]) = [Deleted 1 ''toString'']"
  by (simp_all add: run_def start_system_def authenticate_call_def load_awaited_def
      authenticate_transmit_def authenticate_packet_def Let_def toString_inherited
      findKeyNumber_empty connected_reader_fields card_connected_reader
      connection_connected_reader)

lemma start_key_ff:
  "card' r \<noteq> None \<Longrightarrow> connection r \<noteq> None \<Longrightarrow> keyStorage r = (\<lambda>n. None) \<Longrightarrow>
   loadAuthenticationKey_start r (authenticate_slot r) (KeyString key_ff)
     = (LoadPending 0 [0xff, 0xff, 0xff, 0xff, 0xff, 0xff],
        [[0xff, 0x82, 0x00, 0x00, 0x06, 0xff, 0xff, 0xff, 0xff, 0xff, 0xff]])"
  by (simp add: loadAuthenticationKey_start_def loadAuthenticationKey_packet_def
      hex_decode_key_ff authenticate_slot_eq)

lemma step1: "step (start_system connected_reader) (Authenticate 1 4 0x60 key_ff False) = after_first"
proof -
  have "loadAuthenticationKey_start connected_reader (authenticate_slot connected_reader) (KeyString key_ff)
     = (LoadPending 0 [0xff, 0xff, 0xff, 0xff, 0xff, 0xff],
        [[0xff, 0x82, 0x00, 0x00, 0x06, 0xff, 0xff, 0xff, 0xff, 0xff, 0xff]])"
    by (rule start_key_ff) (simp_all add: card_connected_reader connection_connected_reader
        connected_reader_fields)
  then show ?thesis
    by (simp add: start_system_def authenticate_call_def after_first_def
        findKeyNumber_empty connected_reader_fields key_ff_not_inherited)
qed

lemma step2: "step after_first (Authenticate 2 5 0x60 key_ff False) = after_second"
  by (simp add: after_second_def after_first_def authenticate_call_def findKeyNumber_empty
      connected_reader_fields)

lemma step3: "step after_second (LoadAnswer 0 (Inr [0x90, 0x00])) = after_answer"
  by (simp add: after_answer_def after_second_def after_first_def load_answer_def response_ok
      connected_reader_fields)

lemma step4: "step after_answer (LoadAwaited 1) = after_first_resume"
  by (simp add: after_first_resume_def after_answer_def after_second_def after_first_def
      load_awaited_def authenticate_transmit_def authenticate_packet_def Let_def
      card_connected_reader connection_connected_reader fun_upd_idem)

lemma step5: "step after_first_resume (LoadAwaited 2) = after_second_resume"
  by (simp add: after_second_resume_def after_first_resume_def after_answer_def after_second_def
      after_first_def load_awaited_def authenticate_transmit_def authenticate_packet_def Let_def
      card_connected_reader connection_connected_reader)

lemma run_two_calls: "run (start_system connected_reader) two_calls = after_second_resume"
  by (simp only: run_def two_calls_def foldl.simps step1 step2 step3 step4 step5)

lemma accesses_two_calls:
  "accesses (run (start_system connected_reader) two_calls)
     = [Stored 1 key_ff, Deleted 1 key_ff, Deleted 2 key_ff]"
  by (simp add: run_two_calls after_second_resume_def)

text \<open>
  C1 as stated fails. Two calls for a key that is in no slot: the first stores the entry
  and starts the load, the second finds the entry and waits for the same load. When the
  load has settled, both run the \<open>finally\<close> block: the second call deletes the entry of
  the key too, though it never stored one.
\<close>

theorem awaiting_call_deletes_counterexample:
  "accesses (run (start_system connected_reader) two_calls)
     = [Stored 1 key_ff, Deleted 1 key_ff, Deleted 2 key_ff]
   \<and> storers (run (start_system connected_reader) two_calls) key_ff = [1]
   \<and> deleters (run (start_system connected_reader) two_calls) key_ff = [1, 2]
   \<and> \<not> set (deleters (run (start_system connected_reader) two_calls) key_ff)
         \<subseteq> set (storers (run (start_system connected_reader) two_calls) key_ff)"
  by (simp add: accesses_two_calls storers_def deleters_def)

text \<open>
  C1, as the code has it, for keys that are hex strings of six bytes. A call of
  \<open>authenticate\<close> whose key is in no slot and has no
  entry in \<open>pendingLoadAuthenticationKey\<close> stores the entry before its first \<open>await\<close>;
  a call that finds an entry stores nothing and starts no load, it waits for the promise
  in the entry. Every call that waited, whether it started the load or not, deletes the
  entry of its key when it goes on after the load has settled, with either outcome. In
  every state reached from a reader without entries, a key that no call is waiting for has
  no entry: after all calls for a key have settled, its entry is absent.
\<close>

theorem pending_entry_lifecycle:
  assumes "pendingLoadAuthenticationKey r = (\<lambda>k. None)"
  shows "(length (hex_decode k) = 6 \<and> calls s cid = None
            \<and> findKeyNumber (rdr s) (Some k) = None
            \<and> pendingLoadAuthenticationKey (rdr s) k = None \<longrightarrow>
            pendingLoadAuthenticationKey (rdr (step s (Authenticate cid blockNumber keyType k obsolete))) k
              = Some (length (promises s))
          \<and> accesses (step s (Authenticate cid blockNumber keyType k obsolete))
              = accesses s @ [Stored cid k]
          \<and> map_option c_phase (calls (step s (Authenticate cid blockNumber keyType k obsolete)) cid)
              = Some (AwaitLoad (length (promises s))))
       \<and> (calls s cid = None \<and> findKeyNumber (rdr s) (Some k) = None
            \<and> pendingLoadAuthenticationKey (rdr s) k = Some pid \<longrightarrow>
            step s (Authenticate cid blockNumber keyType k obsolete)
              = s\<lparr>calls := (calls s)(cid := Some \<lparr>c_blockNumber = blockNumber, c_keyType = keyType,
                     c_key = k, c_obsolete = obsolete, c_phase = AwaitLoad pid\<rparr>)\<rparr>)
       \<and> (calls s cid = Some c \<and> c_phase c = AwaitLoad pid \<and> pid < length (promises s)
            \<and> promises s ! pid = LoadSettled res \<longrightarrow>
            pendingLoadAuthenticationKey (rdr (step s (LoadAwaited cid))) (c_key c) = None
          \<and> accesses (step s (LoadAwaited cid)) = accesses s @ [Deleted cid (c_key c)])
       \<and> (hex_keys evs \<and> \<not> awaiting (run (start_system r) evs) k' \<longrightarrow>
            pendingLoadAuthenticationKey (rdr (run (start_system r) evs)) k' = None)"
proof -
  have A: "pendingLoadAuthenticationKey (rdr (step s (Authenticate cid blockNumber keyType k obsolete))) k
              = Some (length (promises s))
          \<and> accesses (step s (Authenticate cid blockNumber keyType k obsolete))
              = accesses s @ [Stored cid k]
          \<and> map_option c_phase (calls (step s (Authenticate cid blockNumber keyType k obsolete)) cid)
              = Some (AwaitLoad (length (promises s)))"
    if "length (hex_decode k) = 6" "calls s cid = None" "findKeyNumber (rdr s) (Some k) = None"
      "pendingLoadAuthenticationKey (rdr s) k = None"
    using that(2-4) hex_key_not_inherited [OF that(1)]
    by (simp add: authenticate_call_def split: prod.splits)
  have B: "step s (Authenticate cid blockNumber keyType k obsolete)
              = s\<lparr>calls := (calls s)(cid := Some \<lparr>c_blockNumber = blockNumber, c_keyType = keyType,
                     c_key = k, c_obsolete = obsolete, c_phase = AwaitLoad pid\<rparr>)\<rparr>"
    if "calls s cid = None" "findKeyNumber (rdr s) (Some k) = None"
      "pendingLoadAuthenticationKey (rdr s) k = Some pid"
    using that by (simp add: authenticate_call_def)
  have C: "pendingLoadAuthenticationKey (rdr (step s (LoadAwaited cid))) (c_key c) = None
          \<and> accesses (step s (LoadAwaited cid)) = accesses s @ [Deleted cid (c_key c)]"
    if "calls s cid = Some c" "c_phase c = AwaitLoad pid" "pid < length (promises s)"
      "promises s ! pid = LoadSettled res"
    using load_awaited_settled(1,2) [OF that] by simp
  have "pending_awaited (run (start_system r) evs)"
    using assms by (intro pending_awaited_run pending_awaited_start)
  then have D: "hex_keys evs \<and> \<not> awaiting (run (start_system r) evs) k' \<longrightarrow>
            pendingLoadAuthenticationKey (rdr (run (start_system r) evs)) k' = None"
    by (auto simp: pending_awaited_def)
  from A B C D show ?thesis by blast
qed

lemma not_awaiting_after_second_resume: "\<not> awaiting after_second_resume k"
  by (auto simp: awaiting_def after_second_resume_def after_first_resume_def after_answer_def
      after_second_def after_first_def split: if_splits)

theorem pending_entry_lifecycle_witness:
  "pendingLoadAuthenticationKey connected_reader = (\<lambda>k. None)
   \<and> length (hex_decode key_ff) = 6
   \<and> hex_keys two_calls
   \<and> calls (start_system connected_reader) 1 = None
   \<and> findKeyNumber (rdr (start_system connected_reader)) (Some key_ff) = None
   \<and> pendingLoadAuthenticationKey (rdr (start_system connected_reader)) key_ff = None
   \<and> pendingLoadAuthenticationKey
        (rdr (step (start_system connected_reader) (Authenticate 1 4 0x60 key_ff False))) key_ff
       = Some 0
   \<and> calls after_first 2 = None
   \<and> findKeyNumber (rdr after_first) (Some key_ff) = None
   \<and> pendingLoadAuthenticationKey (rdr after_first) key_ff = Some 0
   \<and> accesses (step after_first (Authenticate 2 5 0x60 key_ff False)) = accesses after_first
   \<and> calls after_first_resume 2 = Some \<lparr>c_blockNumber = 5, c_keyType = 0x60, c_key = key_ff,
                                  c_obsolete = False, c_phase = AwaitLoad 0\<rparr>
   \<and> promises after_first_resume ! 0 = LoadSettled (Inr 0)
   \<and> pendingLoadAuthenticationKey (rdr (step after_first_resume (LoadAwaited 2))) key_ff = None
   \<and> accesses (step after_first_resume (LoadAwaited 2))
       = [Stored 1 key_ff, Deleted 1 key_ff, Deleted 2 key_ff]
   \<and> \<not> awaiting (run (start_system connected_reader) two_calls) key_ff
   \<and> pendingLoadAuthenticationKey (rdr (run (start_system connected_reader) two_calls)) key_ff = None"
proof -
  note p = connected_reader_fields(2)
  let ?s0 = "start_system connected_reader"
  let ?c2 = "\<lparr>c_blockNumber = 5, c_keyType = 0x60, c_key = key_ff,
                                  c_obsolete = False, c_phase = AwaitLoad 0\<rparr>"
  have a: "calls ?s0 1 = None" "findKeyNumber (rdr ?s0) (Some key_ff) = None"
    "pendingLoadAuthenticationKey (rdr ?s0) key_ff = None" "promises ?s0 = []"
    by (simp_all add: start_system_def findKeyNumber_empty connected_reader_fields)
  have b: "calls after_first 2 = None" "findKeyNumber (rdr after_first) (Some key_ff) = None"
    "pendingLoadAuthenticationKey (rdr after_first) key_ff = Some 0"
    by (simp_all add: after_first_def findKeyNumber_empty connected_reader_fields)
  have c: "calls after_first_resume 2 = Some ?c2" "c_phase ?c2 = AwaitLoad 0" "c_key ?c2 = key_ff"
    "0 < length (promises after_first_resume)"
    "promises after_first_resume ! 0 = LoadSettled (Inr 0)"
    "accesses after_first_resume = [Stored 1 key_ff, Deleted 1 key_ff]"
    by (simp_all add: after_first_resume_def after_answer_def after_second_def after_first_def)
  have d: "\<not> awaiting (run ?s0 two_calls) key_ff"
    by (simp only: run_two_calls not_awaiting_after_second_resume not_False_eq_True)
  have l: "length (hex_decode key_ff) = 6" by (simp add: hex_decode_key_ff)
  have hk: "hex_keys two_calls" by (simp add: hex_keys_def two_calls_def l)
  from pending_entry_lifecycle [OF p, where s = ?s0 and cid = 1 and k = key_ff
      and blockNumber = 4 and keyType = "0x60" and obsolete = False] a l
  have 1: "pendingLoadAuthenticationKey (rdr (step ?s0 (Authenticate 1 4 0x60 key_ff False))) key_ff
       = Some 0"
    by simp
  from pending_entry_lifecycle [OF p, where s = after_first and cid = 2 and k = key_ff
      and pid = 0 and blockNumber = 5 and keyType = "0x60" and obsolete = False] b
  have "step after_first (Authenticate 2 5 0x60 key_ff False)
              = after_first\<lparr>calls := (calls after_first)(2 := Some ?c2)\<rparr>"
    by blast
  then have 2: "accesses (step after_first (Authenticate 2 5 0x60 key_ff False)) = accesses after_first"
    by simp
  from pending_entry_lifecycle [OF p, where s = after_first_resume and cid = 2 and c = ?c2
      and pid = 0 and res = "Inr 0"] c
  have 3: "pendingLoadAuthenticationKey (rdr (step after_first_resume (LoadAwaited 2))) key_ff = None
     \<and> accesses (step after_first_resume (LoadAwaited 2))
         = [Stored 1 key_ff, Deleted 1 key_ff, Deleted 2 key_ff]"
    by simp
  from pending_entry_lifecycle [OF p, where evs = two_calls and k' = key_ff] d hk
  have 4: "pendingLoadAuthenticationKey (rdr (run ?s0 two_calls)) key_ff = None"
    by blast
  from p l hk a(1-3) b c(1,5) d 1 2 3 4 show ?thesis by blast
qed

text \<open>
  The \<open>delete\<close> of a call that only waited can remove an entry that a later call has
  stored. Without a card the load fails before the provider is called, so its promise is
  rejected from the start and the continuations are queued when the calls are made. With
  a third call queued between the first two, the order is: first call goes on (and deletes
  the entry), third call starts (and stores a new entry), second call goes on: it deletes
  the entry of the third call.
\<close>

lemma awaiting_call_deletes_later_entry:
  "pendingLoadAuthenticationKey (rdr (run (start_system new_reader) cardless_calls)) key_ff = Some 1
   \<and> accesses (run (start_system new_reader) cardless_calls)
       = [Stored 1 key_ff, Deleted 1 key_ff, Stored 3 key_ff]
   \<and> map_option c_phase (calls (run (start_system new_reader) cardless_calls) 2) = Some (AwaitLoad 0)
   \<and> pendingLoadAuthenticationKey
        (rdr (step (run (start_system new_reader) cardless_calls) (LoadAwaited 2))) key_ff = None
   \<and> accesses (step (run (start_system new_reader) cardless_calls) (LoadAwaited 2))
       = [Stored 1 key_ff, Deleted 1 key_ff, Stored 3 key_ff, Deleted 2 key_ff]"
  by (simp add: run_def cardless_calls_def start_system_def new_reader_def authenticate_call_def
      findKeyNumber_def loadAuthenticationKey_start_def loadAuthenticationKey_packet_def
      hex_decode_key_ff authenticate_slot_def load_awaited_def Let_def key_ff_not_inherited)

end
